theory Spec2Isabelle
  imports Main "HOL-Library.Sublist" "HOL-Library.AList"
begin

section \<open>JavaScript values\<close>

text \<open>
  Acyclic JavaScript values (tool inputs and outputs, sanitised payloads) are finite
  trees. Numbers are kept as integers; an object is its list of own enumerable
  properties in insertion order.
\<close>

datatype jsval =
    JUndefined
  | JNull
  | JBool bool
  | JNum int
  | JStr string
  | JArr "jsval list"
  | JObj "(string \<times> jsval) list"

text \<open>JavaScript truthiness, as used by \<^verbatim>\<open>||\<close>, \<^verbatim>\<open>&&\<close> and \<^verbatim>\<open>if\<close>.\<close>

fun truthy :: "jsval \<Rightarrow> bool" where
  "truthy JUndefined = False"
| "truthy JNull = False"
| "truthy (JBool b) = b"
| "truthy (JNum n) = (n \<noteq> 0)"
| "truthy (JStr s) = (s \<noteq> [])"
| "truthy (JArr xs) = True"
| "truthy (JObj kvs) = True"

text \<open>An optional string is truthy when it is defined and not empty.\<close>

definition truthyStr :: "string option \<Rightarrow> bool" where
  "truthyStr s = (case s of None \<Rightarrow> False | Some t \<Rightarrow> t \<noteq> [])"

text \<open>
  \<^verbatim>\<open>String.prototype.trim\<close>. A string here is a list of characters below U+0100; of
  these, JavaScript's white space and line terminators are the tab, the line feed, the
  vertical tab, the form feed, the carriage return, the space and the no-break space.
\<close>

definition isWhiteSpace :: "char \<Rightarrow> bool" where
  "isWhiteSpace c =
     (c \<in> set [CHR 0x09, CHR 0x0A, CHR 0x0B, CHR 0x0C, CHR 0x0D, CHR 0x20, CHR 0xA0])"

definition trim :: "string \<Rightarrow> string" where
  "trim s = rev (dropWhile isWhiteSpace (rev (dropWhile isWhiteSpace s)))"

section \<open>Steps, step records and the operation context\<close>

record toolCallPart =
  tc_toolCallId :: string
  tc_toolName :: string
  tc_input :: jsval

record toolResultPart =
  tr_toolCallId :: string
  tr_toolName :: string
  tr_output :: jsval

text \<open>The parts of a step's \<^verbatim>\<open>content\<close> array that the step handler looks at.\<close>

datatype contentPart =
    TextPart string
  | ReasoningPart string
  | ToolCallContent string string jsval
  | ToolResultContent string string jsval
  | ToolErrorContent string string jsval
  | OtherPart

text \<open>
  \<^verbatim>\<open>StepResult\<close> of the model SDK; \<open>'r\<close> is the SDK's usage type. A field the code
  reads with \<^verbatim>\<open>?.\<close> is optional.
\<close>

record 'r stepResult =
  sr_content :: "contentPart list option"
  sr_text :: "string option"
  sr_toolCalls :: "toolCallPart list option"
  sr_toolResults :: "toolResultPart list option"
  sr_usage :: 'r
  sr_responseMessages :: "jsval list option"

datatype stepType = Text | Tool_call | Tool_result

text \<open>\<^verbatim>\<open>StepWithContent\<close>: an element of \<^verbatim>\<open>oc.conversationSteps\<close>.\<close>

record 'u stepWithContent =
  swc_id :: string
  swc_type :: stepType
  swc_content :: string
  swc_role :: string
  swc_name :: "string option"
  swc_arguments :: "jsval option"
  swc_result :: "jsval option"
  swc_usage :: 'u
  swc_subAgentId :: "string option"
  swc_subAgentName :: "string option"

text \<open>\<^verbatim>\<open>ConversationStepRecord\<close>: what is handed to the memory manager.\<close>

record 'u conversationStepRecord =
  csr_id :: string
  csr_conversationId :: string
  csr_userId :: string
  csr_agentId :: string
  csr_agentName :: string
  csr_operationId :: string
  stepIndex :: nat
  csr_type :: stepType
  csr_role :: string
  csr_content :: "string option"
  csr_arguments :: "jsval option"
  csr_result :: "jsval option"
  csr_usage :: 'u
  csr_subAgentId :: "string option"
  csr_subAgentName :: "string option"
  createdAt :: string

text \<open>
  The entries of \<^verbatim>\<open>oc.systemContext\<close> that the modelled code reads or writes, one
  optional slot per key: \<^verbatim>\<open>"conversationSteps"\<close>, \<^verbatim>\<open>STEP_PERSIST_COUNT_KEY\<close>,
  \<^verbatim>\<open>AGENT_METADATA_CONTEXT_KEY\<close> (agent id and agent name) and \<^verbatim>\<open>"bailedResult"\<close>
  (agent name and response).
\<close>

record 'r systemContext =
  sc_conversationSteps :: "'r stepResult list option"
  STEP_PERSIST_COUNT_KEY :: "nat option"
  AGENT_METADATA_CONTEXT_KEY :: "(string \<times> string) option"
  sc_bailedResult :: "(jsval \<times> string) option"

text \<open>
  \<^verbatim>\<open>OperationContext\<close>. The context map and the abort controller are objects shared
  between operations, so the record holds their addresses.
\<close>

record ('r, 'u) operationContext =
  oc_operationId :: string
  oc_context :: nat
  oc_systemContext :: "'r systemContext"
  oc_isActive :: bool
  oc_conversationSteps :: "'u stepWithContent list option"
  oc_abortController :: nat
  oc_userId :: "string option"
  oc_conversationId :: "string option"
  oc_parentAgentId :: "string option"
  oc_output :: "string option"

section \<open>The step recorder\<close>

text \<open>
  What \<^verbatim>\<open>recordStepResults\<close> takes from its surroundings: the agent's id and name,
  \<^verbatim>\<open>convertUsage\<close> and \<^verbatim>\<open>safeStringify\<close> (imported helpers, here \<open>re_safeStringify\<close>), the UUID generator (its
  \<open>n\<close>-th draw) and the wall clock (the ISO string of its \<open>n\<close>-th reading).
\<close>

record ('r, 'u) recorderEnv =
  agent_id :: string
  agent_name :: string
  convertUsage :: "'r \<Rightarrow> 'u"
  re_safeStringify :: "jsval \<Rightarrow> string"
  randomUUID :: "nat \<Rightarrow> string"
  toISOString :: "nat \<Rightarrow> string"

text \<open>
  The effects of the recorder outside the operation context: the batches passed to
  \<^verbatim>\<open>memoryManager.saveConversationSteps\<close>, in call order, the attributes set on the
  root span, and how many UUIDs and clock readings have been consumed.
\<close>

record 'u recorderWorld =
  saveConversationSteps :: "'u conversationStepRecord list list"
  rootSpanAttributes :: "(string \<times> string) list"
  uuidsDrawn :: nat
  clockReads :: nat

text \<open>The variables of the \<^verbatim>\<open>forEach\<close> loop over the new steps.\<close>

record 'u loopState =
  ls_conversationSteps :: "'u stepWithContent list"
  ls_stepRecords :: "'u conversationStepRecord list"
  ls_uuids :: nat
  ls_clock :: nat
  ls_recordTimestamp :: string

text \<open>\<^verbatim>\<open>given || randomUUID()\<close>: a draw happens only when the given id is empty.\<close>

definition idOrUUID :: "('r, 'u) recorderEnv \<Rightarrow> string \<Rightarrow> nat \<Rightarrow> string \<times> nat" where
  "idOrUUID env given n =
     (if given \<noteq> [] then (given, n) else (randomUUID env n, Suc n))"

text \<open>\<^verbatim>\<open>x ?? d\<close> and \<^verbatim>\<open>x || d\<close> on values.\<close>

definition nullish :: "jsval \<Rightarrow> bool" where
  "nullish v = (v = JUndefined \<or> v = JNull)"

definition orElse :: "jsval \<Rightarrow> jsval \<Rightarrow> jsval" where
  "orElse v d = (if truthy v then v else d)"

definition recordText ::
  "('r, 'u) recorderEnv \<Rightarrow> ('r, 'u) operationContext \<Rightarrow> (string \<times> string) option \<Rightarrow>
   nat \<Rightarrow> 'u \<Rightarrow> string \<Rightarrow> 'u loopState \<Rightarrow> 'u loopState" where
  "recordText env oc subAgentMetadata idx usage trimmedText st =
     (let id1 = randomUUID env (ls_uuids st);
          st1 = st\<lparr>ls_conversationSteps := ls_conversationSteps st @
                  [\<lparr>swc_id = id1, swc_type = Text, swc_content = trimmedText,
                    swc_role = ''assistant'', swc_name = None, swc_arguments = None,
                    swc_result = None, swc_usage = usage,
                    swc_subAgentId = map_option fst subAgentMetadata,
                    swc_subAgentName = map_option snd subAgentMetadata\<rparr>],
                ls_uuids := Suc (ls_uuids st)\<rparr>
      in if truthyStr (oc_userId oc) \<and> truthyStr (oc_conversationId oc) then
           st1\<lparr>ls_stepRecords := ls_stepRecords st1 @
                  [\<lparr>csr_id = randomUUID env (ls_uuids st1),
                    csr_conversationId = the (oc_conversationId oc),
                    csr_userId = the (oc_userId oc),
                    csr_agentId = agent_id env, csr_agentName = agent_name env,
                    csr_operationId = oc_operationId oc, stepIndex = idx,
                    csr_type = Text, csr_role = ''assistant'',
                    csr_content = Some trimmedText, csr_arguments = None,
                    csr_result = None, csr_usage = usage,
                    csr_subAgentId = map_option fst subAgentMetadata,
                    csr_subAgentName = map_option snd subAgentMetadata,
                    createdAt = ls_recordTimestamp st1\<rparr>],
               ls_uuids := Suc (ls_uuids st1)\<rparr>
         else st1)"

definition recordToolCall ::
  "('r, 'u) recorderEnv \<Rightarrow> ('r, 'u) operationContext \<Rightarrow> (string \<times> string) option \<Rightarrow>
   nat \<Rightarrow> 'u \<Rightarrow> 'u loopState \<Rightarrow> toolCallPart \<Rightarrow> 'u loopState" where
  "recordToolCall env oc subAgentMetadata idx usage st toolCall =
     (let (id1, n1) = idOrUUID env (tc_toolCallId toolCall) (ls_uuids st);
          st1 = st\<lparr>ls_conversationSteps := ls_conversationSteps st @
                  [\<lparr>swc_id = id1, swc_type = Tool_call,
                    swc_content = re_safeStringify env
                      (if nullish (tc_input toolCall) then JObj [] else tc_input toolCall),
                    swc_role = ''assistant'', swc_name = Some (tc_toolName toolCall),
                    swc_arguments = Some (orElse (tc_input toolCall) (JObj [])),
                    swc_result = None, swc_usage = usage,
                    swc_subAgentId = map_option fst subAgentMetadata,
                    swc_subAgentName = map_option snd subAgentMetadata\<rparr>],
                ls_uuids := n1\<rparr>
      in if truthyStr (oc_userId oc) \<and> truthyStr (oc_conversationId oc) then
           (let (id2, n2) = idOrUUID env (tc_toolCallId toolCall) (ls_uuids st1)
            in st1\<lparr>ls_stepRecords := ls_stepRecords st1 @
                  [\<lparr>csr_id = id2,
                    csr_conversationId = the (oc_conversationId oc),
                    csr_userId = the (oc_userId oc),
                    csr_agentId = agent_id env, csr_agentName = agent_name env,
                    csr_operationId = oc_operationId oc, stepIndex = idx,
                    csr_type = Tool_call, csr_role = ''assistant'',
                    csr_content = None,
                    csr_arguments = Some (orElse (tc_input toolCall) (JObj [])),
                    csr_result = None, csr_usage = usage,
                    csr_subAgentId = map_option fst subAgentMetadata,
                    csr_subAgentName = map_option snd subAgentMetadata,
                    createdAt = ls_recordTimestamp st1\<rparr>],
               ls_uuids := n2\<rparr>)
         else st1)"

definition recordToolResult ::
  "('r, 'u) recorderEnv \<Rightarrow> ('r, 'u) operationContext \<Rightarrow> (string \<times> string) option \<Rightarrow>
   nat \<Rightarrow> 'u \<Rightarrow> 'u loopState \<Rightarrow> toolResultPart \<Rightarrow> 'u loopState" where
  "recordToolResult env oc subAgentMetadata idx usage st toolResult =
     (let (id1, n1) = idOrUUID env (tr_toolCallId toolResult) (ls_uuids st);
          st1 = st\<lparr>ls_conversationSteps := ls_conversationSteps st @
                  [\<lparr>swc_id = id1, swc_type = Tool_result,
                    swc_content = re_safeStringify env (tr_output toolResult),
                    swc_role = ''assistant'', swc_name = Some (tr_toolName toolResult),
                    swc_arguments = None,
                    swc_result = Some (tr_output toolResult), swc_usage = usage,
                    swc_subAgentId = map_option fst subAgentMetadata,
                    swc_subAgentName = map_option snd subAgentMetadata\<rparr>],
                ls_uuids := n1\<rparr>
      in if truthyStr (oc_userId oc) \<and> truthyStr (oc_conversationId oc) then
           (let (id2, n2) = idOrUUID env (tr_toolCallId toolResult) (ls_uuids st1)
            in st1\<lparr>ls_stepRecords := ls_stepRecords st1 @
                  [\<lparr>csr_id = id2,
                    csr_conversationId = the (oc_conversationId oc),
                    csr_userId = the (oc_userId oc),
                    csr_agentId = agent_id env, csr_agentName = agent_name env,
                    csr_operationId = oc_operationId oc, stepIndex = idx,
                    csr_type = Tool_result, csr_role = ''assistant'',
                    csr_content = None, csr_arguments = None,
                    csr_result = Some (if nullish (tr_output toolResult) then JNull
                                       else tr_output toolResult),
                    csr_usage = usage,
                    csr_subAgentId = map_option fst subAgentMetadata,
                    csr_subAgentName = map_option snd subAgentMetadata,
                    createdAt = ls_recordTimestamp st1\<rparr>],
               ls_uuids := n2\<rparr>)
         else st1)"

text \<open>
  The body of the \<^verbatim>\<open>forEach\<close> callback for one step at index \<open>idx\<close>: the text
  record, the tool-call records, the tool-result records, then a fresh timestamp.
\<close>

definition recordStep ::
  "('r, 'u) recorderEnv \<Rightarrow> ('r, 'u) operationContext \<Rightarrow> (string \<times> string) option \<Rightarrow>
   nat \<Rightarrow> 'r stepResult \<Rightarrow> 'u loopState \<Rightarrow> 'u loopState" where
  "recordStep env oc subAgentMetadata idx step st =
     (let usage = convertUsage env (sr_usage step);
          trimmedText = map_option trim (sr_text step);
          st1 = (if truthyStr trimmedText
                 then recordText env oc subAgentMetadata idx usage (the trimmedText) st
                 else st);
          st2 = (case sr_toolCalls step of
                   None \<Rightarrow> st1
                 | Some tcs \<Rightarrow> foldl (recordToolCall env oc subAgentMetadata idx usage) st1 tcs);
          st3 = (case sr_toolResults step of
                   None \<Rightarrow> st2
                 | Some trs \<Rightarrow> foldl (recordToolResult env oc subAgentMetadata idx usage) st2 trs)
      in st3\<lparr>ls_recordTimestamp := toISOString env (ls_clock st3),
             ls_clock := Suc (ls_clock st3)\<rparr>)"

text \<open>\<^verbatim>\<open>newSteps.forEach((step, offset) => ...)\<close> with \<open>idx = previouslyPersistedCount + offset\<close>.\<close>

fun recordLoop ::
  "('r, 'u) recorderEnv \<Rightarrow> ('r, 'u) operationContext \<Rightarrow> (string \<times> string) option \<Rightarrow>
   nat \<Rightarrow> 'r stepResult list \<Rightarrow> 'u loopState \<Rightarrow> 'u loopState" where
  "recordLoop env oc subAgentMetadata idx [] st = st"
| "recordLoop env oc subAgentMetadata idx (step # steps) st =
     recordLoop env oc subAgentMetadata (Suc idx) steps
       (recordStep env oc subAgentMetadata idx step st)"

text \<open>
  \<^verbatim>\<open>recordStepResults(steps, oc)\<close>, in two parts. \<open>recordStoredSteps\<close> is the body of
  the function from \<^verbatim>\<open>if (!oc.conversationSteps)\<close> on, for a non-empty list of stored
  steps. The write to the memory manager is issued and not awaited, so the model records
  the batch that was handed over.
\<close>

definition recordStoredSteps ::
  "('r, 'u) recorderEnv \<Rightarrow> 'r stepResult list \<Rightarrow>
   ('r, 'u) operationContext \<times> 'u recorderWorld \<Rightarrow>
   ('r, 'u) operationContext \<times> 'u recorderWorld" where
  "recordStoredSteps env storedSteps ocw =
            (let (oc, w) = ocw;
                 oc1 = (case oc_conversationSteps oc of
                          None \<Rightarrow> oc\<lparr>oc_conversationSteps := Some []\<rparr>
                        | Some cs \<Rightarrow> oc);
                 previouslyPersistedCount =
                   (case STEP_PERSIST_COUNT_KEY (oc_systemContext oc1) of
                      None \<Rightarrow> 0 | Some c \<Rightarrow> c);
                 newSteps = drop previouslyPersistedCount storedSteps
             in if newSteps = [] then (oc1, w)
                else
                  (let oc2 = oc1\<lparr>oc_systemContext := (oc_systemContext oc1)
                                \<lparr>STEP_PERSIST_COUNT_KEY :=
                                   Some (previouslyPersistedCount + length newSteps)\<rparr>\<rparr>;
                       w1 = (if truthyStr (oc_conversationId oc2)
                             then w\<lparr>rootSpanAttributes := rootSpanAttributes w @
                                     [(''conversation.id'', the (oc_conversationId oc2)),
                                      (''voltagent.conversation_id'',
                                       the (oc_conversationId oc2))]\<rparr>
                             else w);
                       agentMetadata = AGENT_METADATA_CONTEXT_KEY (oc_systemContext oc2);
                       subAgentMetadata =
                         (if truthyStr (oc_parentAgentId oc2) then agentMetadata else None);
                       st0 = \<lparr>ls_conversationSteps = the (oc_conversationSteps oc2),
                              ls_stepRecords = [],
                              ls_uuids = uuidsDrawn w1,
                              ls_clock = Suc (clockReads w1),
                              ls_recordTimestamp = toISOString env (clockReads w1)\<rparr>;
                       st = recordLoop env oc2 subAgentMetadata previouslyPersistedCount
                              newSteps st0;
                       oc3 = oc2\<lparr>oc_conversationSteps := Some (ls_conversationSteps st)\<rparr>;
                       w2 = w1\<lparr>uuidsDrawn := ls_uuids st, clockReads := ls_clock st\<rparr>
                   in if ls_stepRecords st \<noteq> [] \<and> truthyStr (oc_userId oc3)
                         \<and> truthyStr (oc_conversationId oc3)
                      then (oc3, w2\<lparr>saveConversationSteps :=
                                      saveConversationSteps w2 @ [ls_stepRecords st]\<rparr>)
                      else (oc3, w2)))"

definition recordStepResults ::
  "('r, 'u) recorderEnv \<Rightarrow> 'r stepResult list option \<Rightarrow>
   ('r, 'u) operationContext \<times> 'u recorderWorld \<Rightarrow>
   ('r, 'u) operationContext \<times> 'u recorderWorld" where
  "recordStepResults env steps ocw =
     (let storedSteps = (case steps of
                           Some ss \<Rightarrow> (if ss \<noteq> [] then Some ss
                                       else sc_conversationSteps (oc_systemContext (fst ocw)))
                         | None \<Rightarrow> sc_conversationSteps (oc_systemContext (fst ocw)))
      in case storedSteps of
           None \<Rightarrow> ocw
         | Some [] \<Rightarrow> ocw
         | Some (s # ss) \<Rightarrow> recordStoredSteps env (s # ss) ocw)"

section \<open>The operation context factory\<close>

subsection \<open>Context maps\<close>

text \<open>
  A context is a JavaScript \<^verbatim>\<open>Map<string | symbol, unknown>\<close>: an association list in
  insertion order. \<^verbatim>\<open>Map.prototype.set\<close> overwrites the value of a key in place or
  appends a new entry, which is \<^const>\<open>AList.update\<close>. The maps live in a store, since
  operations share them by reference: the address of a map is its index in the store.
\<close>

datatype ctxKey = KStr string | KSym nat

type_synonym 'v ctxMap = "(ctxKey \<times> 'v) list"

definition has :: "'v ctxMap \<Rightarrow> ctxKey \<Rightarrow> bool" where
  "has m k = (map_of m k \<noteq> None)"

text \<open>\<^verbatim>\<open>for (const [k, v] of source.entries()) { if (!context.has(k)) context.set(k, v); }\<close>\<close>

definition fillMissing :: "'v ctxMap \<Rightarrow> 'v ctxMap \<Rightarrow> 'v ctxMap" where
  "fillMissing source context =
     foldl (\<lambda>m (k, v). if has m k then m else AList.update k v m) context source"

text \<open>\<^verbatim>\<open>ContextInput\<close>: a \<^verbatim>\<open>Map\<close> instance or a plain object.\<close>

datatype 'v contextInput = ContextMap nat | ContextRecord "(string \<times> 'v) list"

subsection \<open>Abort controllers\<close>

text \<open>
  An \<^verbatim>\<open>AbortController\<close> with its signal: whether it has aborted, the reason, and the
  listeners of the signal's \<^verbatim>\<open>abort\<close> event in registration order. The only listener
  the factory registers is the closure that cascades an external signal into the
  operation's controller; \<open>CascadeAbort c\<close> is that closure for the controller at \<open>c\<close>.
\<close>

datatype abortListener = CascadeAbort nat

record 'x abortControllerObj =
  aborted :: bool
  reason :: "'x option"
  abortListeners :: "abortListener list"

text \<open>The store of shared objects the factory allocates in and, for UUIDs, draws from.\<close>

record ('v, 'x) factoryWorld =
  contextMaps :: "'v ctxMap list"
  abortControllers :: "'x abortControllerObj list"
  operationIdsDrawn :: nat

definition contextAt :: "('v, 'x) factoryWorld \<Rightarrow> nat \<Rightarrow> 'v ctxMap" where
  "contextAt w a = (if a < length (contextMaps w) then contextMaps w ! a else [])"

definition setContextAt ::
  "nat \<Rightarrow> 'v ctxMap \<Rightarrow> ('v, 'x) factoryWorld \<Rightarrow> ('v, 'x) factoryWorld" where
  "setContextAt a m w = w\<lparr>contextMaps := (contextMaps w)[a := m]\<rparr>"

definition newMap ::
  "'v ctxMap \<Rightarrow> ('v, 'x) factoryWorld \<Rightarrow> nat \<times> ('v, 'x) factoryWorld" where
  "newMap m w = (length (contextMaps w), w\<lparr>contextMaps := contextMaps w @ [m]\<rparr>)"

definition newAbortController ::
  "('v, 'x) factoryWorld \<Rightarrow> nat \<times> ('v, 'x) factoryWorld" where
  "newAbortController w =
     (length (abortControllers w),
      w\<lparr>abortControllers := abortControllers w @
           [\<lparr>aborted = False, reason = None, abortListeners = []\<rparr>]\<rparr>)"

text \<open>\<^verbatim>\<open>signal.addEventListener("abort", listener)\<close> on the signal of the controller at \<open>a\<close>.\<close>

definition addEventListener ::
  "nat \<Rightarrow> abortListener \<Rightarrow> ('v, 'x) factoryWorld \<Rightarrow> ('v, 'x) factoryWorld" where
  "addEventListener a l w =
     (if a < length (abortControllers w)
      then w\<lparr>abortControllers := (abortControllers w)
              [a := (abortControllers w ! a)
                 \<lparr>abortListeners := abortListeners (abortControllers w ! a) @ [l]\<rparr>]\<rparr>
      else w)"

definition unaborted :: "'x abortControllerObj list \<Rightarrow> nat" where
  "unaborted cs = length (filter (\<lambda>c. \<not> aborted c) cs)"

text \<open>
  \<^verbatim>\<open>controller.abort(reason)\<close> with the dispatch of the \<^verbatim>\<open>abort\<close> event. A controller
  that has aborted ignores the call. Otherwise it is marked with the reason and its
  listeners run in order, each to completion: the work list holds the pending calls
  \<^verbatim>\<open>if (!c.signal.aborted) c.abort(reason)\<close>, those of the controller just marked in
  front.
\<close>

function runAborts ::
  "(nat \<times> 'x) list \<Rightarrow> 'x abortControllerObj list \<Rightarrow> 'x abortControllerObj list" where
  "runAborts [] cs = cs"
| "runAborts ((c, r) # rest) cs =
     (if c < length cs \<and> \<not> aborted (cs ! c)
      then runAborts
             (map (\<lambda>l. case l of CascadeAbort t \<Rightarrow> (t, r)) (abortListeners (cs ! c)) @ rest)
             (cs[c := (cs ! c)\<lparr>aborted := True, reason := Some r\<rparr>])
      else runAborts rest cs)"
  by pat_completeness auto

termination runAborts
proof (relation "measures [\<lambda>(work, cs). unaborted cs, \<lambda>(work, cs). length work]")
  have mark: "unaborted (cs[c := (cs ! c)\<lparr>aborted := True, reason := Some r\<rparr>]) < unaborted cs"
    if "c < length cs" "\<not> aborted (cs ! c)"
    for cs :: "'x abortControllerObj list" and c :: nat and r :: 'x
    using that
  proof (induction cs arbitrary: c)
    case Nil
    then show ?case by simp
  next
    case (Cons a cs)
    show ?case
    proof (cases c)
      case 0
      then show ?thesis
        using Cons.prems by (simp add: unaborted_def)
    next
      case (Suc n)
      then show ?thesis
        using Cons.prems Cons.IH [of n] by (simp add: unaborted_def)
    qed
  qed
  show "wf (measures [\<lambda>(work, cs). unaborted cs, \<lambda>(work, cs). length work])"
    by simp
  show "((map (\<lambda>l. case l of CascadeAbort t \<Rightarrow> (t, r)) (abortListeners (cs ! c)) @ rest,
          cs[c := (cs ! c)\<lparr>aborted := True, reason := Some r\<rparr>]),
         (c, r) # rest, cs)
        \<in> measures [\<lambda>(work, cs). unaborted cs, \<lambda>(work, cs). length work]"
    if "c < length cs \<and> \<not> aborted (cs ! c)"
    for c :: nat and r :: 'x and rest and cs :: "'x abortControllerObj list"
    using that mark [of c cs r] by simp
  show "((rest, cs), (c, r) # rest, cs)
        \<in> measures [\<lambda>(work, cs). unaborted cs, \<lambda>(work, cs). length work]"
    for c :: nat and r :: 'x and rest and cs :: "'x abortControllerObj list"
    by simp
qed

text \<open>\<^verbatim>\<open>controller.abort(reason)\<close> on the controller at \<open>c\<close>.\<close>

definition abort :: "nat \<Rightarrow> 'x \<Rightarrow> ('v, 'x) factoryWorld \<Rightarrow> ('v, 'x) factoryWorld" where
  "abort c r w = w\<lparr>abortControllers := runAborts [(c, r)] (abortControllers w)\<rparr>"

subsection \<open>\<^verbatim>\<open>createOperationContext\<close>\<close>

text \<open>
  What the factory reads: of the agent, its id, name and default context map
  (\<^verbatim>\<open>this.context\<close>, absent when the agent has none); of the options, the caller's
  context, the parent operation context, the external abort signal (the address of its
  controller) and the identifiers; of the surroundings, the trigger context of the active
  tracing context (absent when it is not a \<^verbatim>\<open>Map\<close>) and the UUID generator.
\<close>

record agentObj =
  this_id :: string
  this_name :: string
  this_context :: "nat option"

record ('r, 'u, 'v) generationOptions =
  opt_context :: "'v contextInput option"
  opt_parentOperationContext :: "('r, 'u) operationContext option"
  opt_abortSignal :: "nat option"
  opt_userId :: "string option"
  opt_conversationId :: "string option"
  opt_parentAgentId :: "string option"

record 'v factoryEnv =
  activeTriggerContext :: "'v ctxMap option"
  operationUUID :: "nat \<Rightarrow> string"

text \<open>
  \<^verbatim>\<open>toContextMap\<close>: a \<^verbatim>\<open>Map\<close> is returned as it is, a plain object becomes a new
  \<^verbatim>\<open>Map\<close> of its string-keyed entries.
\<close>

definition toContextMap ::
  "'v contextInput option \<Rightarrow> ('v, 'x) factoryWorld \<Rightarrow> nat option \<times> ('v, 'x) factoryWorld" where
  "toContextMap context w =
     (case context of
        None \<Rightarrow> (None, w)
      | Some (ContextMap a) \<Rightarrow> (Some a, w)
      | Some (ContextRecord entries) \<Rightarrow>
          (let (a, w') = newMap (foldl (\<lambda>m (k, v). AList.update (KStr k) v m) [] entries) w
           in (Some a, w')))"

text \<open>The fill loop on the map at address \<open>context\<close>, reading the map at \<open>source\<close>.\<close>

definition fillFrom ::
  "nat \<Rightarrow> nat \<Rightarrow> ('v, 'x) factoryWorld \<Rightarrow> ('v, 'x) factoryWorld" where
  "fillFrom source context w =
     setContextAt context (fillMissing (contextAt w source) (contextAt w context)) w"

text \<open>
  The context-map block of \<^verbatim>\<open>createOperationContext\<close>: the choice of the authoritative
  map and the fill loops, the one for the trigger context included.
\<close>

definition resolveContext ::
  "agentObj \<Rightarrow> 'v factoryEnv \<Rightarrow> ('r, 'u, 'v) generationOptions \<Rightarrow> ('v, 'x) factoryWorld \<Rightarrow>
   nat \<times> ('v, 'x) factoryWorld" where
  "resolveContext this env options w1 =
     (let (runtimeContext, w2) = toContextMap (opt_context options) w1;
          parentContext = map_option oc_context (opt_parentOperationContext options);
          (context, w3) =
            (case parentContext of
               Some pc \<Rightarrow>
                 (let wa = (case runtimeContext of
                              Some rc \<Rightarrow> fillFrom rc pc w2 | None \<Rightarrow> w2);
                      wb = (case this_context this of
                              Some ac \<Rightarrow> fillFrom ac pc wa | None \<Rightarrow> wa)
                  in (pc, wb))
             | None \<Rightarrow>
                 (case runtimeContext of
                    Some rc \<Rightarrow>
                      (rc, case this_context this of
                             Some ac \<Rightarrow> fillFrom ac rc w2 | None \<Rightarrow> w2)
                  | None \<Rightarrow>
                      (case this_context this of
                         Some ac \<Rightarrow> (ac, w2)
                       | None \<Rightarrow> newMap [] w2)))
      in (context,
          case activeTriggerContext env of
            Some trigger \<Rightarrow>
              setContextAt context (fillMissing trigger (contextAt w3 context)) w3
          | None \<Rightarrow> w3))"

text \<open>
  The cancellation block: the parent's controller or a new one, and the cascade from the
  external signal when the controller is new.
\<close>

definition wireAbortController ::
  "('r, 'u, 'v) generationOptions \<Rightarrow> ('v, 'x) factoryWorld \<Rightarrow> nat \<times> ('v, 'x) factoryWorld" where
  "wireAbortController options w =
     (let parentController =
            map_option oc_abortController (opt_parentOperationContext options);
          (abortController, w1) =
            (case parentController of
               Some c \<Rightarrow> (c, w)
             | None \<Rightarrow> newAbortController w)
      in (abortController,
          case (parentController, opt_abortSignal options) of
            (None, Some externalSignal) \<Rightarrow>
              addEventListener externalSignal (CascadeAbort abortController) w1
          | _ \<Rightarrow> w1))"

definition createOperationContext ::
  "agentObj \<Rightarrow> 'v factoryEnv \<Rightarrow> ('r, 'u, 'v) generationOptions \<Rightarrow> ('v, 'x) factoryWorld \<Rightarrow>
   ('r, 'u) operationContext \<times> ('v, 'x) factoryWorld" where
  "createOperationContext this env options w0 =
     (let operationId = operationUUID env (operationIdsDrawn w0);
          w1 = w0\<lparr>operationIdsDrawn := Suc (operationIdsDrawn w0)\<rparr>;
          (context, w2) = resolveContext this env options w1;
          (abortController, w3) = wireAbortController options w2
      in (\<lparr>oc_operationId = operationId,
           oc_context = context,
           oc_systemContext =
             \<lparr>sc_conversationSteps = None, STEP_PERSIST_COUNT_KEY = None,
              AGENT_METADATA_CONTEXT_KEY = Some (this_id this, this_name this),
              sc_bailedResult = None\<rparr>,
           oc_isActive = True,
           oc_conversationSteps =
             Some (case opt_parentOperationContext options of
                     Some p \<Rightarrow> (case oc_conversationSteps p of Some cs \<Rightarrow> cs | None \<Rightarrow> [])
                   | None \<Rightarrow> []),
           oc_abortController = abortController,
           oc_userId = opt_userId options,
           oc_conversationId = opt_conversationId options,
           oc_parentAgentId = opt_parentAgentId options,
           oc_output = None\<rparr>, w3))"

section \<open>Merging agent-level and call-level hooks\<close>

text \<open>
  A hook is user code: it may change the state it is given and it may throw. A lifecycle
  hook returns nothing; a prepare hook returns the prepared messages. \<^verbatim>\<open>AgentHooks\<close> is
  an object with one optional function per hook name.
\<close>

datatype lifecycleHook =
    OnStart | OnEnd | OnError | OnHandoff | OnHandoffComplete
  | OnToolStart | OnToolEnd | OnStepFinish

datatype prepareHook = OnPrepareMessages | OnPrepareModelMessages

type_synonym ('a, 's, 'e) hook = "'a \<Rightarrow> 's \<Rightarrow> ('e + unit) \<times> 's"

type_synonym ('p, 'q, 's, 'e) prepare = "'p \<Rightarrow> 's \<Rightarrow> ('e + 'q) \<times> 's"

record ('a, 'p, 'q, 's, 'e) agentHooks =
  lifecycle :: "lifecycleHook \<Rightarrow> ('a, 's, 'e) hook option"
  prepare :: "prepareHook \<Rightarrow> ('p, 'q, 's, 'e) prepare option"

text \<open>\<^verbatim>\<open>await hook?.(...args)\<close>: an absent hook is skipped.\<close>

definition callOptional :: "('a, 's, 'e) hook option \<Rightarrow> ('a, 's, 'e) hook" where
  "callOptional h args s = (case h of None \<Rightarrow> (Inr (), s) | Some f \<Rightarrow> f args s)"

text \<open>
  \<^verbatim>\<open>async (...args) => { await options.hooks?.onX?.(...args); await this.hooks.onX?.(...args); }\<close>:
  an exception of the first call ends the function.
\<close>

definition callBoth ::
  "('a, 's, 'e) hook option \<Rightarrow> ('a, 's, 'e) hook option \<Rightarrow> ('a, 's, 'e) hook" where
  "callBoth optionsHook thisHook args s =
     (case callOptional optionsHook args s of
        (Inl e, s1) \<Rightarrow> (Inl e, s1)
      | (Inr u, s1) \<Rightarrow> callOptional thisHook args s1)"

text \<open>\<^verbatim>\<open>a || b\<close> on optional functions: a function is truthy.\<close>

definition firstDefined :: "'h option \<Rightarrow> 'h option \<Rightarrow> 'h option" where
  "firstDefined a b = (case a of Some h \<Rightarrow> Some h | None \<Rightarrow> b)"

text \<open>\<^verbatim>\<open>getMergedHooks(options)\<close> with \<open>thisHooks\<close> for \<^verbatim>\<open>this.hooks\<close> and \<open>optionsHooks\<close> for \<^verbatim>\<open>options?.hooks\<close>.\<close>

definition getMergedHooks ::
  "('a, 'p, 'q, 's, 'e) agentHooks \<Rightarrow> ('a, 'p, 'q, 's, 'e) agentHooks option \<Rightarrow>
   ('a, 'p, 'q, 's, 'e) agentHooks" where
  "getMergedHooks thisHooks optionsHooks =
     (case optionsHooks of
        None \<Rightarrow> thisHooks
      | Some oh \<Rightarrow>
          \<lparr>lifecycle = (\<lambda>name. case name of
               OnStart \<Rightarrow> Some (callBoth (lifecycle oh OnStart) (lifecycle thisHooks OnStart))
             | OnEnd \<Rightarrow> Some (callBoth (lifecycle oh OnEnd) (lifecycle thisHooks OnEnd))
             | OnError \<Rightarrow> Some (callBoth (lifecycle oh OnError) (lifecycle thisHooks OnError))
             | OnHandoff \<Rightarrow>
                 Some (callBoth (lifecycle oh OnHandoff) (lifecycle thisHooks OnHandoff))
             | OnHandoffComplete \<Rightarrow>
                 Some (callBoth (lifecycle oh OnHandoffComplete)
                         (lifecycle thisHooks OnHandoffComplete))
             | OnToolStart \<Rightarrow>
                 Some (callBoth (lifecycle oh OnToolStart) (lifecycle thisHooks OnToolStart))
             | OnToolEnd \<Rightarrow>
                 Some (callBoth (lifecycle oh OnToolEnd) (lifecycle thisHooks OnToolEnd))
             | OnStepFinish \<Rightarrow>
                 Some (callBoth (lifecycle oh OnStepFinish) (lifecycle thisHooks OnStepFinish))),
           prepare = (\<lambda>name. case name of
               OnPrepareMessages \<Rightarrow>
                 firstDefined (prepare oh OnPrepareMessages) (prepare thisHooks OnPrepareMessages)
             | OnPrepareModelMessages \<Rightarrow>
                 firstDefined (prepare oh OnPrepareModelMessages)
                   (prepare thisHooks OnPrepareModelMessages))\<rparr>)"

text \<open>
  Hooks that record their invocation: the state is the list of the hooks invoked so
  far. \<open>noting l\<close> returns normally, \<open>throwing l e\<close> throws \<open>e\<close>.
\<close>

definition noting :: "string \<Rightarrow> (unit, string list, string) hook" where
  "noting l args s = (Inr (), s @ [l])"

definition throwing :: "string \<Rightarrow> string \<Rightarrow> (unit, string list, string) hook" where
  "throwing l e args s = (Inl e, s @ [l])"

definition preparing :: "string \<Rightarrow> (unit, unit, string list, string) prepare" where
  "preparing l args s = (Inr (), s @ [l])"

definition agentLevelHooks :: "(unit, unit, unit, string list, string) agentHooks" where
  "agentLevelHooks = \<lparr>lifecycle = (\<lambda>name. Some (noting ''agent'')),
                       prepare = (\<lambda>name. Some (preparing ''agent''))\<rparr>"

definition callLevelHooks :: "(unit, unit, unit, string list, string) agentHooks" where
  "callLevelHooks = \<lparr>lifecycle = (\<lambda>name. Some (noting ''call'')),
                      prepare = (\<lambda>name. Some (preparing ''call''))\<rparr>"

definition denyingHooks :: "(unit, unit, unit, string list, string) agentHooks" where
  "denyingHooks = \<lparr>lifecycle = (\<lambda>name. Some (throwing ''call'' ''ToolDeniedError'')),
                    prepare = (\<lambda>name. None)\<rparr>"

section \<open>Error values and their sanitisation\<close>

subsection \<open>Values that may be cyclic\<close>

text \<open>
  A value attached to an error may refer back to itself, so these values are references
  into a heap of objects; the address of an object is its index in the heap. Besides
  plain objects and arrays the heap holds the kinds of object that
  \<^verbatim>\<open>sanitizeErrorValue\<close> tells apart: \<^verbatim>\<open>Error\<close> instances, dates (with their ISO
  string, absent for an invalid date), maps, sets and functions. Symbols and big integers
  are left out.
\<close>

datatype val =
    VUndefined
  | VNull
  | VBool bool
  | VNum int
  | VStr string
  | VRef nat

text \<open>
  An \<^verbatim>\<open>Error\<close> instance: what \<^verbatim>\<open>error.name\<close>, \<^verbatim>\<open>error.message\<close>, \<^verbatim>\<open>error.stack\<close>
  and \<^verbatim>\<open>error.cause\<close> read, and its own properties in the order of
  \<^verbatim>\<open>Object.getOwnPropertyNames\<close>.
\<close>

record errorObj =
  err_name :: string
  err_message :: string
  err_stack :: "string option"
  err_cause :: val
  err_ownProperties :: "(string \<times> val) list"

datatype obj =
    OPlain "(string \<times> val) list"
  | OArray "val list"
  | OError errorObj
  | ODate "string option"
  | OMap
  | OSet
  | OFunction

type_synonym heap = "obj list"

definition objAt :: "heap \<Rightarrow> nat \<Rightarrow> obj option" where
  "objAt h a = (if a < length h then Some (h ! a) else None)"

text \<open>
  What a JavaScript function can throw at its caller: a value of the heap, an \<^verbatim>\<open>Error\<close>
  the code has just created, or a \<^verbatim>\<open>RangeError\<close> of the engine with its message.
\<close>

datatype thrown = Thrown val | ThrownNew errorObj | RangeError string

subsection \<open>\<^verbatim>\<open>safeStringify\<close>\<close>

fun digitChar :: "nat \<Rightarrow> char" where
  "digitChar n = (''0123456789'' ! (n mod 10))"

fun showNat :: "nat \<Rightarrow> string" where
  "showNat n = (if n < 10 then [digitChar n] else showNat (n div 10) @ [digitChar n])"

definition showInt :: "int \<Rightarrow> string" where
  "showInt i = (if i < 0 then CHR ''-'' # showNat (nat (- i)) else showNat (nat i))"

definition escapeChar :: "char \<Rightarrow> string" where
  "escapeChar c =
     (if c = CHR 0x22 then [CHR 0x5C, CHR 0x22]
      else if c = CHR 0x5C then [CHR 0x5C, CHR 0x5C]
      else if c = CHR 0x0A then [CHR 0x5C, CHR ''n'']
      else if c = CHR 0x0D then [CHR 0x5C, CHR ''r'']
      else if c = CHR 0x09 then [CHR 0x5C, CHR ''t'']
      else [c])"

definition quoteJson :: "string \<Rightarrow> string" where
  "quoteJson s = [CHR 0x22] @ concat (map escapeChar s) @ [CHR 0x22]"

fun joinWith :: "string \<Rightarrow> string list \<Rightarrow> string" where
  "joinWith sep [] = []"
| "joinWith sep [x] = x"
| "joinWith sep (x # y # ys) = x @ sep @ joinWith sep (y # ys)"

text \<open>
  Modelled from the spec: \<^verbatim>\<open>safeStringify\<close> of \<^verbatim>\<open>@voltagent/internal/utils\<close>, whose
  source is not part of the files at hand. The spec gives it as the serialiser that makes
  a value JSON-safe, with circular references replaced by a string form containing the
  marker \<^verbatim>\<open>[Circular]\<close>; the repository's tests expect the text of
  \<^verbatim>\<open>{ reason: "demo" }\<close> to contain \<^verbatim>\<open>"reason":"demo"\<close>. So: JSON text, in which an object
  met again below itself is written as the string \<^verbatim>\<open>"[Circular]"\<close>. As in JSON,
  \<^verbatim>\<open>undefined\<close> and functions have no text (absent here), are left out of objects and
  are \<^verbatim>\<open>null\<close> in arrays; an \<^verbatim>\<open>Error\<close> is written with its own properties other than
  message, stack and cause, a date as its ISO string, a map or a set as \<^verbatim>\<open>{}\<close>.
  \<open>seen\<close> holds the addresses of the objects around the value.
\<close>

function stringify :: "heap \<Rightarrow> nat list \<Rightarrow> val \<Rightarrow> string option" where
  "stringify h seen VUndefined = None"
| "stringify h seen VNull = Some ''null''"
| "stringify h seen (VBool b) = Some (if b then ''true'' else ''false'')"
| "stringify h seen (VNum n) = Some (showInt n)"
| "stringify h seen (VStr s) = Some (quoteJson s)"
| "stringify h seen (VRef a) =
     (if length h \<le> a then None
      else if a \<in> set seen then Some (quoteJson ''[Circular]'')
      else
        (case h ! a of
           OArray items \<Rightarrow>
             Some (''['' @
               joinWith '',''
                 (map (\<lambda>x. case stringify h (a # seen) x of None \<Rightarrow> ''null'' | Some s \<Rightarrow> s)
                    items) @ '']'')
         | OPlain props \<Rightarrow>
             Some (''{'' @
               joinWith '',''
                 (concat (map (\<lambda>kv. case stringify h (a # seen) (snd kv) of
                                        None \<Rightarrow> []
                                      | Some s \<Rightarrow> [quoteJson (fst kv) @ '':'' @ s])
                    props)) @ ''}'')
         | OError e \<Rightarrow>
             Some (''{'' @
               joinWith '',''
                 (concat (map (\<lambda>kv. case stringify h (a # seen) (snd kv) of
                                        None \<Rightarrow> []
                                      | Some s \<Rightarrow> [quoteJson (fst kv) @ '':'' @ s])
                    (filter (\<lambda>kv. fst kv \<notin> {''message'', ''stack'', ''cause''})
                       (err_ownProperties e)))) @ ''}'')
         | ODate d \<Rightarrow> (case d of None \<Rightarrow> Some ''null'' | Some t \<Rightarrow> Some (quoteJson t))
         | OMap \<Rightarrow> Some ''{}''
         | OSet \<Rightarrow> Some ''{}''
         | OFunction \<Rightarrow> None))"
  by pat_completeness auto

termination stringify
proof (relation "measure (\<lambda>(h, seen, v). card ({..<length h} - set seen))")
  have less: "card ({..<length h} - set (a # seen)) < card ({..<length h} - set seen)"
    if "\<not> length h \<le> a" "a \<notin> set seen" for h :: heap and a seen
  proof -
    have in_rest: "a \<in> {..<length h} - set seen"
      using that by simp
    have fin: "finite ({..<length h} - set seen)"
      by simp
    have eq: "{..<length h} - set (a # seen) = ({..<length h} - set seen) - {a}"
      by auto
    show ?thesis
      unfolding eq by (rule card_Diff1_less [OF fin in_rest])
  qed
  show "wf (measure (\<lambda>(h, seen, v). card ({..<length h} - set seen)))"
    by simp
  show "((h, a # seen, snd x), h, seen, VRef a)
        \<in> measure (\<lambda>(h, seen, v). card ({..<length h} - set seen))"
    if "\<not> length h \<le> a" "a \<notin> set seen" "h ! a = OPlain x1" "x \<in> set x1"
    for h seen a x1 x
    using less [OF that(1,2)] by simp
  show "((h, a # seen, x), h, seen, VRef a)
        \<in> measure (\<lambda>(h, seen, v). card ({..<length h} - set seen))"
    if "\<not> length h \<le> a" "a \<notin> set seen" "h ! a = OArray x2" "x \<in> set x2"
    for h seen a x2 x
    using less [OF that(1,2)] by simp
  show "((h, a # seen, snd x), h, seen, VRef a)
        \<in> measure (\<lambda>(h, seen, v). card ({..<length h} - set seen))"
    if "\<not> length h \<le> a" "a \<notin> set seen" "h ! a = OError x3"
      "x \<in> set (filter (\<lambda>kv. fst kv \<notin> {''message'', ''stack'', ''cause''})
                   (err_ownProperties x3))"
    for h seen a x3 x
    using less [OF that(1,2)] by simp
qed

definition safeStringify :: "heap \<Rightarrow> val \<Rightarrow> thrown + string option" where
  "safeStringify h v = Inr (stringify h [] v)"

subsection \<open>\<^verbatim>\<open>sanitizeErrorValue\<close> and \<^verbatim>\<open>buildToolErrorResult\<close>\<close>

text \<open>
  The two helpers \<^verbatim>\<open>sanitizeErrorValue\<close> calls: \<^verbatim>\<open>safeStringify\<close>, which may throw and
  may return \<^verbatim>\<open>undefined\<close>, and the built-in \<^verbatim>\<open>String\<close>.
\<close>

record errorEnv =
  ee_safeStringify :: "heap \<Rightarrow> val \<Rightarrow> thrown + string option"
  ee_String :: "heap \<Rightarrow> val \<Rightarrow> string"

definition stringOrUndefined :: "string option \<Rightarrow> jsval" where
  "stringOrUndefined s = (case s of None \<Rightarrow> JUndefined | Some t \<Rightarrow> JStr t)"

text \<open>\<^verbatim>\<open>{ name: e.name, message: e.message, stack: e.stack }\<close>\<close>

definition errorSummary :: "errorObj \<Rightarrow> jsval" where
  "errorSummary e =
     JObj [(''name'', JStr (err_name e)), (''message'', JStr (err_message e)),
           (''stack'', stringOrUndefined (err_stack e))]"

text \<open>\<^verbatim>\<open>Array.prototype.map\<close> with a callback that may throw: the first exception ends it.\<close>

fun collect :: "(thrown + 'a) list \<Rightarrow> thrown + 'a list" where
  "collect [] = Inr []"
| "collect (Inl e # rs) = Inl e"
| "collect (Inr x # rs) = (case collect rs of Inl e \<Rightarrow> Inl e | Inr xs \<Rightarrow> Inr (x # xs))"

text \<open>
  \<^verbatim>\<open>sanitizeErrorValue(value)\<close>. The function calls itself on the items of an array
  without a bound, so the model carries the number of nested calls the JavaScript stack
  still admits: a call with none left throws the engine's \<^verbatim>\<open>RangeError\<close>.
  \<^verbatim>\<open>Date.prototype.toISOString\<close> throws a \<^verbatim>\<open>RangeError\<close> on an invalid date.
\<close>

fun sanitizeErrorValue :: "errorEnv \<Rightarrow> nat \<Rightarrow> heap \<Rightarrow> val \<Rightarrow> thrown + jsval" where
  "sanitizeErrorValue env 0 h v = Inl (RangeError ''Maximum call stack size exceeded'')"
| "sanitizeErrorValue env (Suc d) h VNull = Inr JNull"
| "sanitizeErrorValue env (Suc d) h VUndefined = Inr JUndefined"
| "sanitizeErrorValue env (Suc d) h (VStr s) = Inr (JStr s)"
| "sanitizeErrorValue env (Suc d) h (VNum n) = Inr (JNum n)"
| "sanitizeErrorValue env (Suc d) h (VBool b) = Inr (JBool b)"
| "sanitizeErrorValue env (Suc d) h (VRef a) =
     (case objAt h a of
        None \<Rightarrow> Inr JUndefined
      | Some (OArray items) \<Rightarrow>
          (case collect (map (sanitizeErrorValue env d h) items) of
             Inl e \<Rightarrow> Inl e
           | Inr xs \<Rightarrow> Inr (JArr xs))
      | Some (OError e) \<Rightarrow> Inr (errorSummary e)
      | Some (ODate t) \<Rightarrow>
          (case t of
             None \<Rightarrow> Inl (RangeError ''Invalid time value'')
           | Some s \<Rightarrow> Inr (JStr s))
      | Some OMap \<Rightarrow>
          (case ee_safeStringify env h (VRef a) of
             Inl e \<Rightarrow> Inl e
           | Inr s \<Rightarrow> Inr (stringOrUndefined s))
      | Some OSet \<Rightarrow>
          (case ee_safeStringify env h (VRef a) of
             Inl e \<Rightarrow> Inl e
           | Inr s \<Rightarrow> Inr (stringOrUndefined s))
      | Some other \<Rightarrow>
          (case ee_safeStringify env h (VRef a) of
             Inl e \<Rightarrow> Inr (JStr (ee_String env h (VRef a)))
           | Inr s \<Rightarrow> Inr (stringOrUndefined s)))"

definition asError :: "heap \<Rightarrow> val \<Rightarrow> errorObj option" where
  "asError h v =
     (case v of
        VRef a \<Rightarrow> (case objAt h a of Some (OError e) \<Rightarrow> Some e | _ \<Rightarrow> None)
      | _ \<Rightarrow> None)"

definition isFunction :: "heap \<Rightarrow> val \<Rightarrow> bool" where
  "isFunction h v =
     (case v of VRef a \<Rightarrow> objAt h a = Some OFunction | _ \<Rightarrow> False)"

text \<open>The loop of \<^verbatim>\<open>buildToolErrorResult\<close> over the own property names of the error.\<close>

fun copyOwnProperties ::
  "errorEnv \<Rightarrow> nat \<Rightarrow> heap \<Rightarrow> (string \<times> val) list \<Rightarrow> (string \<times> jsval) list \<Rightarrow>
   thrown + (string \<times> jsval) list" where
  "copyOwnProperties env d h [] errorResult = Inr errorResult"
| "copyOwnProperties env d h ((key, v) # rest) errorResult =
     (if key \<in> set [''name'', ''message'', ''stack'', ''cause'', ''error'']
      then copyOwnProperties env d h rest errorResult
      else if v = VUndefined \<or> isFunction h v
      then copyOwnProperties env d h rest errorResult
      else
        (case sanitizeErrorValue env d h v of
           Inl e \<Rightarrow> Inl e
         | Inr sanitized \<Rightarrow>
             copyOwnProperties env d h rest (AList.update key sanitized errorResult)))"

text \<open>\<^verbatim>\<open>buildToolErrorResult(error, toolCallId, toolName)\<close>; \<open>d\<close> is the stack left for
  the calls it makes.\<close>

definition buildToolErrorResult ::
  "errorEnv \<Rightarrow> nat \<Rightarrow> heap \<Rightarrow> errorObj \<Rightarrow> string \<Rightarrow> string \<Rightarrow>
   thrown + (string \<times> jsval) list" where
  "buildToolErrorResult env d h error toolCallId toolName =
     (let errorResult =
            [(''error'', JBool True),
             (''name'', JStr (err_name error)),
             (''message'', JStr (err_message error)),
             (''stack'', stringOrUndefined (err_stack error)),
             (''toolCallId'', JStr toolCallId),
             (''toolName'', JStr toolName)];
          cause = err_cause error;
          withCause =
            (if cause \<noteq> VUndefined
             then (case asError h cause of
                     Some c \<Rightarrow> Inr (AList.update ''cause'' (errorSummary c) errorResult)
                   | None \<Rightarrow>
                       (case sanitizeErrorValue env d h cause of
                          Inl e \<Rightarrow> Inl e
                        | Inr sanitized \<Rightarrow>
                            Inr (AList.update ''cause'' sanitized errorResult)))
             else Inr errorResult)
      in case withCause of
           Inl e \<Rightarrow> Inl e
         | Inr r \<Rightarrow> copyOwnProperties env d h (err_ownProperties error) r)"

section \<open>The tool execution wrapper\<close>

text \<open>
  A tool: its name, its optional \<^verbatim>\<open>execute\<close> (user code on the arguments, which may
  change the user's state and may throw) and the optional \<^verbatim>\<open>safeParse\<close> of its output
  schema, which either fails with a message and a list of issues or succeeds with the
  parsed data.
\<close>

datatype parseResult = ParseSuccess val | ParseFailure string val

record ('a, 's) toolObj =
  tool_name :: string
  tool_execute :: "('a \<Rightarrow> 's \<Rightarrow> (thrown + val) \<times> 's) option"
  tool_safeParse :: "(val \<Rightarrow> parseResult) option"

text \<open>
  The two hooks the wrapper calls. \<^verbatim>\<open>onToolEnd\<close> receives the output and the error, of
  which one is \<^verbatim>\<open>undefined\<close>; the error is handed over wrapped by
  \<^verbatim>\<open>createVoltAgentError\<close>, the model hands over the error it wraps.
\<close>

record ('a, 's) toolHooks =
  onToolStart :: "('a \<Rightarrow> 's \<Rightarrow> (thrown + unit) \<times> 's) option"
  onToolEnd :: "(val option \<Rightarrow> errorObj option \<Rightarrow> 's \<Rightarrow> (thrown + unit) \<times> 's) option"

text \<open>What the wrapper does to the span, the system context and the abort controller.\<close>

datatype toolEvent =
    SpanCreated string string
  | SystemContextSet string
  | ToolStartCalled
  | SpanOutput "string option"
  | SpanStatusOk
  | SpanStatusError string
  | SpanException
  | SpanEnded
  | ToolEndCalled "val option" "errorObj option"
  | AbortCalled thrown
  | ChildSpanEnded

record 's toolWorld =
  tw_state :: 's
  tw_events :: "toolEvent list"

text \<open>
  What the wrapper takes from its surroundings: the helpers of \<^verbatim>\<open>sanitizeErrorValue\<close>,
  the stack left for building the error payload, the UUID the generator yields, the
  stack trace the engine gives a new \<^verbatim>\<open>Error\<close> with a given message, and
  \<^verbatim>\<open>isToolDeniedError\<close>.
\<close>

record toolEnv =
  te_errorEnv :: errorEnv
  te_stackLeft :: nat
  te_randomUUID :: string
  te_newStack :: "string \<Rightarrow> string"
  te_isToolDeniedError :: "heap \<Rightarrow> thrown \<Rightarrow> bool"

text \<open>The value the wrapped function resolves to: the tool's result or the error payload.\<close>

datatype toolReturn = RawResult val | ErrorResult "(string \<times> jsval) list"

definition emit :: "toolEvent \<Rightarrow> 's toolWorld \<Rightarrow> 's toolWorld" where
  "emit ev w = w\<lparr>tw_events := tw_events w @ [ev]\<rparr>"

definition callUser ::
  "('s \<Rightarrow> (thrown + 'b) \<times> 's) \<Rightarrow> 's toolWorld \<Rightarrow> (thrown + 'b) \<times> 's toolWorld" where
  "callUser f w = (case f (tw_state w) of (r, s) \<Rightarrow> (r, w\<lparr>tw_state := s\<rparr>))"

text \<open>\<^verbatim>\<open>new Error(message)\<close>\<close>

definition newError :: "toolEnv \<Rightarrow> string \<Rightarrow> errorObj" where
  "newError env message =
     \<lparr>err_name = ''Error'', err_message = message,
      err_stack = Some (te_newStack env message), err_cause = VUndefined,
      err_ownProperties =
        [(''stack'', VStr (te_newStack env message)), (''message'', VStr message)]\<rparr>"

text \<open>\<^verbatim>\<open>validateToolOutput(result, tool)\<close>\<close>

definition validateToolOutput ::
  "toolEnv \<Rightarrow> val \<Rightarrow> ('a, 's) toolObj \<Rightarrow> thrown + val" where
  "validateToolOutput env result tool =
     (case tool_safeParse tool of
        None \<Rightarrow> Inr result
      | Some safeParse \<Rightarrow>
          (case safeParse result of
             ParseFailure message errors \<Rightarrow>
               (let error = newError env (''Output validation failed: '' @ message)
                in Inl (ThrownNew (error\<lparr>err_ownProperties := err_ownProperties error @
                      [(''validationErrors'', errors), (''actualOutput'', result)]\<rparr>)))
           | ParseSuccess data \<Rightarrow> Inr data))"

text \<open>\<^verbatim>\<open>e instanceof Error ? e : new Error(String(e))\<close>\<close>

definition toError :: "toolEnv \<Rightarrow> heap \<Rightarrow> thrown \<Rightarrow> errorObj" where
  "toError env h e =
     (case e of
        Thrown v \<Rightarrow>
          (case asError h v of
             Some error \<Rightarrow> error
           | None \<Rightarrow> newError env (ee_String (te_errorEnv env) h v))
      | ThrownNew error \<Rightarrow> error
      | RangeError message \<Rightarrow> (newError env message)\<lparr>err_name := ''RangeError''\<rparr>)"

text \<open>The \<^verbatim>\<open>try\<close> block of the wrapped function.\<close>

definition tryBlock ::
  "toolEnv \<Rightarrow> heap \<Rightarrow> ('a, 's) toolObj \<Rightarrow> ('a, 's) toolHooks \<Rightarrow> 'a \<Rightarrow> 's toolWorld \<Rightarrow>
   (thrown + val) \<times> 's toolWorld" where
  "tryBlock env h tool hooks args w0 =
     (case (case onToolStart hooks of
              None \<Rightarrow> (Inr (), w0)
            | Some hook \<Rightarrow> callUser (hook args) (emit ToolStartCalled w0)) of
        (Inl e, w1) \<Rightarrow> (Inl e, w1)
      | (Inr u, w1) \<Rightarrow>
          (case tool_execute tool of
             None \<Rightarrow>
               (Inl (ThrownNew (newError env
                  (''Tool '' @ tool_name tool @ '' does not have '' @ [CHR 0x22] @
                   ''execute'' @ [CHR 0x22] @ '' method''))), w1)
           | Some execute \<Rightarrow>
               (case callUser (execute args) w1 of
                  (Inl e, w2) \<Rightarrow> (Inl e, w2)
                | (Inr result, w2) \<Rightarrow>
                    (case validateToolOutput env result tool of
                       Inl e \<Rightarrow> (Inl e, w2)
                     | Inr validatedResult \<Rightarrow>
                         (case ee_safeStringify (te_errorEnv env) h result of
                            Inl e \<Rightarrow> (Inl e, w2)
                          | Inr text \<Rightarrow>
                              (let w3 = emit SpanEnded (emit SpanStatusOk
                                          (emit (SpanOutput text) w2))
                               in case (case onToolEnd hooks of
                                          None \<Rightarrow> (Inr (), w3)
                                        | Some hook \<Rightarrow>
                                            callUser (hook (Some validatedResult) None)
                                              (emit (ToolEndCalled (Some validatedResult) None)
                                                 w3)) of
                                    (Inl e, w4) \<Rightarrow> (Inl e, w4)
                                  | (Inr u, w4) \<Rightarrow> (Inr result, w4)))))))"

text \<open>The \<^verbatim>\<open>catch\<close> block: nothing in it is guarded, so what it throws leaves the wrapper.\<close>

definition catchBlock ::
  "toolEnv \<Rightarrow> heap \<Rightarrow> ('a, 's) toolObj \<Rightarrow> ('a, 's) toolHooks \<Rightarrow> string \<Rightarrow> thrown \<Rightarrow>
   's toolWorld \<Rightarrow> (thrown + toolReturn) \<times> 's toolWorld" where
  "catchBlock env h tool hooks toolCallId e w0 =
     (let error = toError env h e
      in case buildToolErrorResult (te_errorEnv env) (te_stackLeft env) h error toolCallId
                (tool_name tool) of
           Inl x \<Rightarrow> (Inl x, w0)
         | Inr errorResult \<Rightarrow>
             (let w1 = emit SpanEnded (emit SpanException
                         (emit (SpanStatusError (err_message error)) w0))
              in case (case onToolEnd hooks of
                         None \<Rightarrow> (Inr (), w1)
                       | Some hook \<Rightarrow>
                           callUser (hook None (Some error))
                             (emit (ToolEndCalled None (Some error)) w1)) of
                   (Inl x, w2) \<Rightarrow> (Inl x, w2)
                 | (Inr u, w2) \<Rightarrow>
                     (Inr (ErrorResult errorResult),
                      if te_isToolDeniedError env h e then emit (AbortCalled e) w2 else w2)))"

text \<open>
  The function that \<^verbatim>\<open>createToolExecutionFactory(oc, hooks)(tool)\<close> returns, applied to the
  arguments and to the call id of the options, if any. Before the \<^verbatim>\<open>try\<close> it settles
  the call id (\<^verbatim>\<open>options?.toolCallId ?? randomUUID()\<close>), creates the span (of whose
  attributes the model keeps the tool name and the call id) and sets three entries of
  the system context; the \<^verbatim>\<open>finally\<close> block ends the child span.
\<close>

definition effectiveToolCallId :: "toolEnv \<Rightarrow> string option \<Rightarrow> string" where
  "effectiveToolCallId env optionsToolCallId =
     (case optionsToolCallId of Some i \<Rightarrow> i | None \<Rightarrow> te_randomUUID env)"

definition openToolSpan :: "string \<Rightarrow> string \<Rightarrow> 's toolWorld \<Rightarrow> 's toolWorld" where
  "openToolSpan toolName toolCallId w0 =
     emit (SystemContextSet ''parentToolSpan'')
       (emit (SystemContextSet ''historyEntryId'')
          (emit (SystemContextSet ''agentId'')
             (emit (SpanCreated toolName toolCallId) w0)))"

definition toolExecution ::
  "toolEnv \<Rightarrow> heap \<Rightarrow> ('a, 's) toolHooks \<Rightarrow> ('a, 's) toolObj \<Rightarrow> 'a \<Rightarrow> string option \<Rightarrow>
   's toolWorld \<Rightarrow> (thrown + toolReturn) \<times> 's toolWorld" where
  "toolExecution env h hooks tool args optionsToolCallId w0 =
     (let toolCallId = effectiveToolCallId env optionsToolCallId;
          w1 = openToolSpan (tool_name tool) toolCallId w0;
          (r, w2) =
            (case tryBlock env h tool hooks args w1 of
               (Inr result, w) \<Rightarrow> (Inr (RawResult result), w)
             | (Inl e, w) \<Rightarrow> catchBlock env h tool hooks toolCallId e w)
      in (r, emit ChildSpanEnded w2))"

section \<open>\<^verbatim>\<open>streamText\<close>: the streams handed to the caller\<close>

text \<open>
  The errors of the generation paths, by what the code asks of them: a bail error with
  the agent name and the response it carries, a \<^verbatim>\<open>TypeError\<close> or another error with its
  message.
\<close>

datatype failure = BailError jsval string | TypeError string | Failure string

text \<open>
  Modelled from the spec: \<^verbatim>\<open>createBailError\<close>, whose source is not part of the files at
  hand. The spec gives the bail signal as a tagged value \<^verbatim>\<open>{ agentName, response }\<close> that
  travels as the reason of the abort.
\<close>

definition createBailError :: "jsval \<Rightarrow> string \<Rightarrow> failure" where
  "createBailError agentName response = BailError agentName response"


text \<open>\<^verbatim>\<open>IteratorResult\<close>: \<^verbatim>\<open>{ done: false, value }\<close> or \<^verbatim>\<open>{ done: true }\<close>.\<close>

datatype 'c iteratorResult = Value 'c | Done

text \<open>
  The model's full stream is given by what its successive \<^verbatim>\<open>iterator.next()\<close> calls settle
  to. The operation's abort controller can be aborted by other code while the consumer
  is suspended, so each read also tells what \<^verbatim>\<open>oc.abortController.signal.aborted\<close> is
  where \<^verbatim>\<open>wrapWithAbortHandling\<close> looks at it: before the read, and after the read has
  thrown. Past the listed reads the iterator is done.
\<close>

record 'c read =
  abortedBefore :: bool
  settles :: "failure + 'c iteratorResult"
  abortedAfter :: bool

text \<open>A stream drained by its consumer: the parts delivered and the error it ended with.\<close>

type_synonym 'c drained = "'c list \<times> failure option"

text \<open>\<^verbatim>\<open>for await (const part of stream)\<close> on the model's stream itself.\<close>

fun forAwait :: "'c read list \<Rightarrow> 'c drained" where
  "forAwait [] = ([], None)"
| "forAwait (r # rs) =
     (case settles r of
        Inl error \<Rightarrow> ([], Some error)
      | Inr Done \<Rightarrow> ([], None)
      | Inr (Value v) \<Rightarrow> (case forAwait rs of (vs, e) \<Rightarrow> (v # vs, e)))"

text \<open>The generator \<^verbatim>\<open>wrapWithAbortHandling(baseStream)\<close>, drained.\<close>

fun wrapWithAbortHandling :: "'c read list \<Rightarrow> 'c drained" where
  "wrapWithAbortHandling [] = ([], None)"
| "wrapWithAbortHandling (r # rs) =
     (if abortedBefore r then ([], None)
      else case settles r of
             Inl error \<Rightarrow> if abortedAfter r then ([], None) else ([], Some error)
           | Inr Done \<Rightarrow> ([], None)
           | Inr (Value v) \<Rightarrow> (case wrapWithAbortHandling rs of (vs, e) \<Rightarrow> (v # vs, e)))"

text \<open>
  What \<^verbatim>\<open>streamText\<close> of the model SDK returns, as far as the code hands it on: the full
  stream, the text stream and the UI message stream made for given stream options (the
  last two are objects the code only passes along), and the text the \<^verbatim>\<open>text\<close> promise
  resolves to.
\<close>

record ('c, 't, 'u, 'o) streamTextResult =
  sdk_fullStream :: "'c read list"
  sdk_textStream :: 't
  sdk_toUIMessageStream :: "'o \<Rightarrow> 'u"
  sdk_text :: string

text \<open>
  \<^verbatim>\<open>GuardrailPipeline\<close>: its streams and, once it has finalized, the text
  \<^verbatim>\<open>runner.getSanitizedText()\<close> gives (absent when that is not a string).
\<close>

record ('c, 't, 'u, 'o) guardrailPipeline =
  gp_fullStream :: "'c drained"
  gp_textStream :: 't
  gp_createUIStream :: "'o \<Rightarrow> 'u"
  gp_sanitizedText :: "string option"

text \<open>
  What the stream set-up takes from its surroundings: whether the agent has sub-agents,
  \<^verbatim>\<open>createGuardrailPipeline\<close> (imported), and the two relays that sub-agents write into:
  the merged full stream around the abort-aware parent stream and the merged UI stream
  around a given UI stream. \<open>'g\<close> is the type of a normalized output guardrail.
\<close>

record ('c, 't, 'u, 'o, 'g) streamEnv =
  hasSubAgents :: bool
  createGuardrailPipeline ::
    "'c drained \<Rightarrow> 't \<Rightarrow> 'g list \<Rightarrow> ('c, 't, 'u, 'o) guardrailPipeline"
  createMergedFullStream :: "'c drained \<Rightarrow> 'c drained"
  createMergedUIStream :: "'u \<Rightarrow> 'u"

definition createBaseFullStream ::
  "('c, 't, 'u, 'o, 'g) streamEnv \<Rightarrow> ('c, 't, 'u, 'o) streamTextResult \<Rightarrow> 'c drained" where
  "createBaseFullStream env result =
     (if hasSubAgents env
      then createMergedFullStream env (wrapWithAbortHandling (sdk_fullStream result))
      else wrapWithAbortHandling (sdk_fullStream result))"

text \<open>\<^verbatim>\<open>guardrailSet.output.length > 0\<close>\<close>

definition guardrailStreamingEnabled :: "'g list \<Rightarrow> bool" where
  "guardrailStreamingEnabled output = (length output > 0)"

text \<open>The variable \<^verbatim>\<open>guardrailPipeline\<close> once the set-up is through; \<open>None\<close> is \<^verbatim>\<open>null\<close>.\<close>

definition guardrailPipelineOf ::
  "('c, 't, 'u, 'o, 'g) streamEnv \<Rightarrow> 'g list \<Rightarrow> ('c, 't, 'u, 'o) streamTextResult \<Rightarrow>
   ('c, 't, 'u, 'o) guardrailPipeline option" where
  "guardrailPipelineOf env output result =
     (if guardrailStreamingEnabled output
      then Some (createGuardrailPipeline env (createBaseFullStream env result)
                   (sdk_textStream result) output)
      else None)"

definition getGuardrailAwareFullStream ::
  "('c, 't, 'u, 'o, 'g) streamEnv \<Rightarrow> ('c, 't, 'u, 'o) guardrailPipeline option \<Rightarrow>
   ('c, 't, 'u, 'o) streamTextResult \<Rightarrow> 'c drained" where
  "getGuardrailAwareFullStream env guardrailPipeline result =
     (case guardrailPipeline of
        Some pipeline \<Rightarrow> gp_fullStream pipeline
      | None \<Rightarrow> createBaseFullStream env result)"

definition getGuardrailAwareTextStream ::
  "('c, 't, 'u, 'o) guardrailPipeline option \<Rightarrow> ('c, 't, 'u, 'o) streamTextResult \<Rightarrow> 't" where
  "getGuardrailAwareTextStream guardrailPipeline result =
     (case guardrailPipeline of
        Some pipeline \<Rightarrow> gp_textStream pipeline
      | None \<Rightarrow> sdk_textStream result)"

definition getGuardrailAwareUIStream ::
  "('c, 't, 'u, 'o) guardrailPipeline option \<Rightarrow> ('c, 't, 'u, 'o) streamTextResult \<Rightarrow> 'o \<Rightarrow> 'u" where
  "getGuardrailAwareUIStream guardrailPipeline result streamOptions =
     (case guardrailPipeline of
        None \<Rightarrow> sdk_toUIMessageStream result streamOptions
      | Some pipeline \<Rightarrow> gp_createUIStream pipeline streamOptions)"

definition toUIMessageStreamSanitized ::
  "('c, 't, 'u, 'o, 'g) streamEnv \<Rightarrow> ('c, 't, 'u, 'o) guardrailPipeline option \<Rightarrow>
   ('c, 't, 'u, 'o) streamTextResult \<Rightarrow> 'o \<Rightarrow> 'u" where
  "toUIMessageStreamSanitized env guardrailPipeline result streamOptions =
     (if hasSubAgents env
      then createMergedUIStream env (getGuardrailAwareUIStream guardrailPipeline result streamOptions)
      else getGuardrailAwareUIStream guardrailPipeline result streamOptions)"

text \<open>The stream members of \<^verbatim>\<open>resultWithContext\<close>, the object \<^verbatim>\<open>streamText\<close> returns.\<close>

record ('c, 't, 'u, 'o) resultWithContext =
  rc_textStream :: 't
  rc_fullStream :: "'c drained"
  rc_toUIMessageStream :: "'o \<Rightarrow> 'u"

definition resultStreams ::
  "('c, 't, 'u, 'o, 'g) streamEnv \<Rightarrow> 'g list \<Rightarrow> ('c, 't, 'u, 'o) streamTextResult \<Rightarrow>
   ('c, 't, 'u, 'o) resultWithContext" where
  "resultStreams env output result =
     (let guardrailPipeline = guardrailPipelineOf env output result
      in \<lparr>rc_textStream = getGuardrailAwareTextStream guardrailPipeline result,
          rc_fullStream = getGuardrailAwareFullStream env guardrailPipeline result,
          rc_toUIMessageStream = toUIMessageStreamSanitized env guardrailPipeline result\<rparr>)"

section \<open>Sub-agent bail\<close>

subsection \<open>The step handler\<close>

text \<open>
  \<^verbatim>\<open>v.key\<close> for the keys the step handler reads (\<^verbatim>\<open>bailed\<close>, \<^verbatim>\<open>agentName\<close>,
  \<^verbatim>\<open>response\<close>): a \<^verbatim>\<open>TypeError\<close> on \<^verbatim>\<open>null\<close> and \<^verbatim>\<open>undefined\<close>, the property of an object,
  \<^verbatim>\<open>undefined\<close> on an object without it and on the other values.
\<close>

fun readProperty :: "jsval \<Rightarrow> string \<Rightarrow> failure + jsval" where
  "readProperty JUndefined key =
     Inl (TypeError (''Cannot read properties of undefined (reading '' @ [CHR 0x27] @ key @
                     [CHR 0x27] @ '')''))"
| "readProperty JNull key =
     Inl (TypeError (''Cannot read properties of null (reading '' @ [CHR 0x27] @ key @
                     [CHR 0x27] @ '')''))"
| "readProperty (JObj props) key = Inr (case map_of props key of Some v \<Rightarrow> v | None \<Rightarrow> JUndefined)"
| "readProperty (JBool b) key = Inr JUndefined"
| "readProperty (JNum n) key = Inr JUndefined"
| "readProperty (JStr s) key = Inr JUndefined"
| "readProperty (JArr xs) key = Inr JUndefined"

text \<open>
  \<^verbatim>\<open>String(v)\<close>. Numbers are kept as integers and written with all their digits, as
  JavaScript writes those below \<open>10\<^sup>2\<^sup>1\<close> in absolute value; from there on it uses the
  exponent notation, which is not modelled.
\<close>

fun jsString :: "jsval \<Rightarrow> string" where
  "jsString JUndefined = ''undefined''"
| "jsString JNull = ''null''"
| "jsString (JBool b) = (if b then ''true'' else ''false'')"
| "jsString (JNum n) = showInt n"
| "jsString (JStr s) = s"
| "jsString (JArr xs) =
     joinWith '','' (map (\<lambda>x. if x = JUndefined \<or> x = JNull then [] else jsString x) xs)"
| "jsString (JObj props) = ''[object Object]''"

text \<open>\<^verbatim>\<open>toolResult.find((r) => r.bailed === true)\<close>\<close>

fun findBailed :: "jsval list \<Rightarrow> failure + jsval option" where
  "findBailed [] = Inr None"
| "findBailed (r # rs) =
     (case readProperty r ''bailed'' of
        Inl e \<Rightarrow> Inl e
      | Inr bailed \<Rightarrow> if bailed = JBool True then Inr (Some r) else findBailed rs)"

text \<open>
  What the loop over \<^verbatim>\<open>event.content\<close> finds in one part: the element tagged as bailed
  of a \<^verbatim>\<open>tool-result\<close> part whose output is an array.
\<close>

definition bailedResultOf :: "contentPart \<Rightarrow> failure + jsval option" where
  "bailedResultOf part =
     (case part of
        ToolResultContent toolCallId toolName toolResult \<Rightarrow>
          (case toolResult of JArr results \<Rightarrow> findBailed results | _ \<Rightarrow> Inr None)
      | _ \<Rightarrow> Inr None)"

text \<open>
  The loop over the parts, up to its \<^verbatim>\<open>return\<close>: the \<^verbatim>\<open>{ agentName, response }\<close> of the
  first bailed result it meets, with \<^verbatim>\<open>agentName = bailedResult.agentName || "unknown"\<close>
  and \<^verbatim>\<open>response = String(bailedResult.response || "")\<close>. What the loop logs is left out.
\<close>

fun scanParts :: "contentPart list \<Rightarrow> failure + (jsval \<times> string) option" where
  "scanParts [] = Inr None"
| "scanParts (part # parts) =
     (case bailedResultOf part of
        Inl e \<Rightarrow> Inl e
      | Inr None \<Rightarrow> scanParts parts
      | Inr (Some bailedResult) \<Rightarrow>
          (case readProperty bailedResult ''agentName'' of
             Inl e \<Rightarrow> Inl e
           | Inr name \<Rightarrow>
               (case readProperty bailedResult ''response'' of
                  Inl e \<Rightarrow> Inl e
                | Inr response \<Rightarrow>
                    Inr (Some (orElse name (JStr ''unknown''),
                               jsString (orElse response (JStr '''')))))))"

text \<open>
  What the handler works on: the operation context, the store of abort controllers, and
  the batches given to \<^verbatim>\<open>buffer.addModelMessages\<close>.
\<close>

record ('r, 'u) handlerWorld =
  hw_oc :: "('r, 'u) operationContext"
  hw_abortControllers :: "failure abortControllerObj list"
  hw_buffer :: "jsval list list"

text \<open>
  The function \<^verbatim>\<open>createStepHandler(oc, options)\<close> returns, applied to a step. A step whose
  content is an array is pushed onto \<^verbatim>\<open>"conversationSteps"\<close> first. On a bailed result the
  handler stores it under \<^verbatim>\<open>"bailedResult"\<close>, aborts the operation's controller with the
  bail error and returns; otherwise it hands the response messages to the buffer and
  calls the merged \<^verbatim>\<open>onStepFinish\<close> hook.
\<close>

definition createStepHandler ::
  "('r stepResult \<Rightarrow> failure + unit) option \<Rightarrow> 'r stepResult \<Rightarrow> ('r, 'u) handlerWorld \<Rightarrow>
   (failure + unit) \<times> ('r, 'u) handlerWorld" where
  "createStepHandler onStepFinish event w =
     (let oc = hw_oc w;
          sc = oc_systemContext oc;
          w1 = (case sr_content event of
                  None \<Rightarrow> w
                | Some content \<Rightarrow>
                    w\<lparr>hw_oc := oc\<lparr>oc_systemContext := sc\<lparr>sc_conversationSteps :=
                         Some ((case sc_conversationSteps sc of None \<Rightarrow> [] | Some steps \<Rightarrow> steps)
                               @ [event])\<rparr>\<rparr>\<rparr>)
      in case (case sr_content event of None \<Rightarrow> Inr None | Some content \<Rightarrow> scanParts content) of
           Inl e \<Rightarrow> (Inl e, w1)
         | Inr (Some (agentName, response)) \<Rightarrow>
             (Inr (),
              w1\<lparr>hw_oc := (hw_oc w1)\<lparr>oc_systemContext := (oc_systemContext (hw_oc w1))
                             \<lparr>sc_bailedResult := Some (agentName, response)\<rparr>\<rparr>,
                 hw_abortControllers :=
                   runAborts [(oc_abortController oc, createBailError agentName response)]
                     (hw_abortControllers w1)\<rparr>)
         | Inr None \<Rightarrow>
             (let w2 = (case sr_responseMessages event of
                          None \<Rightarrow> w1
                        | Some responseMessages \<Rightarrow>
                            if length responseMessages > 0
                            then w1\<lparr>hw_buffer := hw_buffer w1 @ [responseMessages]\<rparr>
                            else w1)
              in case onStepFinish of
                   None \<Rightarrow> (Inr (), w2)
                 | Some hook \<Rightarrow> (hook event, w2)))"

subsection \<open>Output guardrails and the hooks of a generation\<close>

text \<open>
  An output guardrail, given the finish reason of the run metadata and the current
  output, returns the output to pass on or rejects.
\<close>

type_synonym outputGuardrail = "string option \<Rightarrow> string \<Rightarrow> failure + string"

text \<open>
  Modelled from the spec: \<^verbatim>\<open>runOutputGuardrails\<close> (imported as
  \<^verbatim>\<open>executeOutputGuardrails\<close>), whose source is not part of the files at hand. The spec
  gives it as: the output passes through the ordered list of guardrails, each receives the
  current value and the run metadata and returns the unchanged value or a replacement,
  each is invoked once, in declaration order, on the previous guardrail's output, and
  the first rejection aborts the call.
\<close>

fun runOutputGuardrails :: "outputGuardrail list \<Rightarrow> string option \<Rightarrow> string \<Rightarrow> failure + string" where
  "runOutputGuardrails [] finishReason output = Inr output"
| "runOutputGuardrails (guardrail # guardrails) finishReason output =
     (case guardrail finishReason output of
        Inl e \<Rightarrow> Inl e
      | Inr replaced \<Rightarrow> runOutputGuardrails guardrails finishReason replaced)"

text \<open>The text and finish reason of a generation, as returned and as given to \<^verbatim>\<open>onEnd\<close>.\<close>

record generationOutput =
  out_text :: string
  out_finishReason :: string

text \<open>
  The merged \<^verbatim>\<open>onEnd\<close> hook, called with the output and the error of which one is
  \<^verbatim>\<open>undefined\<close>, and the merged \<^verbatim>\<open>onError\<close> hook.
\<close>

record generationHooks =
  hk_onEnd :: "(generationOutput option \<Rightarrow> failure option \<Rightarrow> failure + unit) option"
  hk_onError :: "(failure \<Rightarrow> failure + unit) option"

definition callOnEnd ::
  "generationHooks \<Rightarrow> generationOutput option \<Rightarrow> failure option \<Rightarrow> failure + unit" where
  "callOnEnd hooks output error =
     (case hk_onEnd hooks of None \<Rightarrow> Inr () | Some hook \<Rightarrow> hook output error)"



subsection \<open>\<^verbatim>\<open>generateText\<close>\<close>

text \<open>What the model SDK's call resolves to, as far as the code reads it here.\<close>

record modelResult =
  mr_text :: string
  mr_finishReason :: string




subsection \<open>\<^verbatim>\<open>streamText\<close>\<close>

text \<open>\<^verbatim>\<open>bailedResult?.response || aiSdkText\<close>\<close>

definition bailedResponseOr :: "'r systemContext \<Rightarrow> string \<Rightarrow> string" where
  "bailedResponseOr sc aiSdkText =
     (case sc_bailedResult sc of
        None \<Rightarrow> aiSdkText
      | Some (agentName, response) \<Rightarrow> if response \<noteq> [] then response else aiSdkText)"

text \<open>
  What \<^verbatim>\<open>sanitizedTextPromise\<close>, the \<^verbatim>\<open>text\<close> of the returned object, resolves to once the
  stream is through: \<open>sc\<close> is the system context by then, \<open>aiSdkText\<close> the text of the
  model SDK.
\<close>

definition sanitizedTextPromise ::
  "('c, 't, 'u, 'o) guardrailPipeline option \<Rightarrow> 'r systemContext \<Rightarrow> string \<Rightarrow> string" where
  "sanitizedTextPromise guardrailPipeline sc aiSdkText =
     (case guardrailPipeline of
        Some pipeline \<Rightarrow>
          (case gp_sanitizedText pipeline of
             Some sanitized \<Rightarrow>
               if length sanitized > 0 then sanitized else bailedResponseOr sc aiSdkText
           | None \<Rightarrow> bailedResponseOr sc aiSdkText)
      | None \<Rightarrow> bailedResponseOr sc aiSdkText)"

text \<open>
  The \<^verbatim>\<open>onFinish\<close> callback given to the model SDK: the final text, which becomes
  \<^verbatim>\<open>oc.output\<close> and the output of the trace; the finish reason set on the trace; and the
  output given to \<^verbatim>\<open>onEnd\<close>, which carries the finish reason of the model SDK. The calls
  to the recorder, the persistence queue, the tracing and the caller's own
  \<^verbatim>\<open>onFinish\<close> are left out.
\<close>

record ('r, 'u) finished =
  fin_oc :: "('r, 'u) operationContext"
  fin_traceFinishReason :: string
  fin_onEndOutput :: generationOutput

definition onFinish ::
  "outputGuardrail list \<Rightarrow> ('c, 't, 'u, 'o) guardrailPipeline option \<Rightarrow> generationHooks \<Rightarrow>
   ('r, 'v) operationContext \<Rightarrow> modelResult \<Rightarrow> string \<Rightarrow> failure + ('r, 'v) finished" where
  "onFinish guardrails guardrailPipeline hooks oc finalResult aiSdkText =
     (let bailedResult = sc_bailedResult (oc_systemContext oc)
      in case (case bailedResult of
                 Some (agentName, response) \<Rightarrow>
                   if length guardrails > 0
                   then runOutputGuardrails guardrails (Some ''bail'') response
                   else Inr response
               | None \<Rightarrow>
                   if guardrailPipeline \<noteq> None
                   then Inr (sanitizedTextPromise guardrailPipeline (oc_systemContext oc) aiSdkText)
                   else if length guardrails > 0
                   then runOutputGuardrails guardrails (Some (mr_finishReason finalResult))
                          (mr_text finalResult)
                   else Inr (mr_text finalResult)) of
           Inl e \<Rightarrow> Inl e
         | Inr finalText \<Rightarrow>
             (let output = \<lparr>out_text = finalText, out_finishReason = mr_finishReason finalResult\<rparr>
              in case callOnEnd hooks (Some output) None of
                   Inl e \<Rightarrow> Inl e
                 | Inr u \<Rightarrow>
                     Inr \<lparr>fin_oc = oc\<lparr>oc_output := Some finalText\<rparr>,
                          fin_traceFinishReason =
                            (if bailedResult \<noteq> None then ''stop'' else mr_finishReason finalResult),
                          fin_onEndOutput = output\<rparr>))"

section \<open>Notions and sample data for the statements\<close>

subsection \<open>The step recorder\<close>

definition eraseCreatedAt :: "'u conversationStepRecord \<Rightarrow> 'u conversationStepRecord" where
  "eraseCreatedAt r = r\<lparr>createdAt := []\<rparr>"

definition sameUpTo ::
  "'u conversationStepRecord list \<Rightarrow> 'u loopState \<Rightarrow> 'u loopState \<Rightarrow> bool" where
  "sameUpTo A st st' \<longleftrightarrow>
     ls_conversationSteps st = ls_conversationSteps st' \<and> ls_uuids st = ls_uuids st' \<and>
     map eraseCreatedAt (ls_stepRecords st) = A @ map eraseCreatedAt (ls_stepRecords st')"

definition extendsAt ::
  "('r, 'u) operationContext \<Rightarrow> nat \<Rightarrow> 'u loopState \<Rightarrow> 'u loopState \<Rightarrow> bool" where
  "extendsAt oc i st st' \<longleftrightarrow>
     (\<exists>R. ls_stepRecords st' = ls_stepRecords st @ R \<and> (\<forall>r\<in>set R. stepIndex r = i) \<and>
          (\<not> (truthyStr (oc_userId oc) \<and> truthyStr (oc_conversationId oc)) \<longrightarrow> R = []))"

definition extendsIn ::
  "('r, 'u) operationContext \<Rightarrow> nat \<Rightarrow> nat \<Rightarrow> 'u loopState \<Rightarrow> 'u loopState \<Rightarrow> bool" where
  "extendsIn oc lo hi st st' \<longleftrightarrow>
     (\<exists>R. ls_stepRecords st' = ls_stepRecords st @ R \<and> sorted (map stepIndex R) \<and>
          (\<forall>r\<in>set R. lo \<le> stepIndex r \<and> stepIndex r < hi) \<and>
          (\<not> (truthyStr (oc_userId oc) \<and> truthyStr (oc_conversationId oc)) \<longrightarrow> R = []))"

definition effectiveSteps ::
  "'r stepResult list option \<Rightarrow> ('r, 'u) operationContext \<Rightarrow> 'r stepResult list" where
  "effectiveSteps steps oc =
     (let stored = (case sc_conversationSteps (oc_systemContext oc) of
                      None \<Rightarrow> [] | Some ss \<Rightarrow> ss)
      in case steps of None \<Rightarrow> stored | Some ss \<Rightarrow> if ss \<noteq> [] then ss else stored)"

definition persistedCount :: "('r, 'u) operationContext \<Rightarrow> nat" where
  "persistedCount oc =
     (case STEP_PERSIST_COUNT_KEY (oc_systemContext oc) of None \<Rightarrow> 0 | Some c \<Rightarrow> c)"

definition stepsSoFar :: "('r, 'u) operationContext \<Rightarrow> 'u stepWithContent list" where
  "stepsSoFar oc = (case oc_conversationSteps oc of None \<Rightarrow> [] | Some cs \<Rightarrow> cs)"

definition sameIdentity ::
  "('r, 'u) operationContext \<Rightarrow> ('r, 'u) operationContext \<Rightarrow> bool" where
  "sameIdentity oc oc' \<longleftrightarrow>
     oc_userId oc' = oc_userId oc \<and> oc_conversationId oc' = oc_conversationId oc \<and>
     oc_operationId oc' = oc_operationId oc \<and> oc_parentAgentId oc' = oc_parentAgentId oc \<and>
     AGENT_METADATA_CONTEXT_KEY (oc_systemContext oc') =
       AGENT_METADATA_CONTEXT_KEY (oc_systemContext oc) \<and>
     sc_conversationSteps (oc_systemContext oc') = sc_conversationSteps (oc_systemContext oc)"

definition subAgentMetadataOf :: "('r, 'u) operationContext \<Rightarrow> (string \<times> string) option" where
  "subAgentMetadataOf oc =
     (if truthyStr (oc_parentAgentId oc)
      then AGENT_METADATA_CONTEXT_KEY (oc_systemContext oc) else None)"

definition passLoop ::
  "('r, 'u) recorderEnv \<Rightarrow> 'r stepResult list \<Rightarrow>
   ('r, 'u) operationContext \<Rightarrow> 'u recorderWorld \<Rightarrow> 'u loopState" where
  "passLoop env E oc w =
     recordLoop env oc (subAgentMetadataOf oc) (persistedCount oc) (drop (persistedCount oc) E)
       \<lparr>ls_conversationSteps = stepsSoFar oc, ls_stepRecords = [],
        ls_uuids = uuidsDrawn w, ls_clock = Suc (clockReads w),
        ls_recordTimestamp = toISOString env (clockReads w)\<rparr>"

definition obsEq ::
  "('r, 'u) operationContext \<times> 'u recorderWorld \<Rightarrow>
   ('r, 'u) operationContext \<times> 'u recorderWorld \<Rightarrow> bool" where
  "obsEq s s' \<longleftrightarrow>
     sameIdentity (fst s) (fst s') \<and> persistedCount (fst s') = persistedCount (fst s) \<and>
     stepsSoFar (fst s') = stepsSoFar (fst s) \<and> uuidsDrawn (snd s') = uuidsDrawn (snd s) \<and>
     map eraseCreatedAt (concat (saveConversationSteps (snd s'))) =
       map eraseCreatedAt (concat (saveConversationSteps (snd s)))"



text \<open>A concrete operation and two concrete steps, used to exercise the recorder.\<close>

definition sampleEnv :: "(unit, unit) recorderEnv" where
  "sampleEnv = \<lparr>agent_id = ''agent-1'', agent_name = ''Supervisor'',
     convertUsage = (\<lambda>u. u), re_safeStringify = (\<lambda>v. ''{}''),
     randomUUID = (\<lambda>n. replicate (Suc n) CHR ''u''),
     toISOString = (\<lambda>n. replicate (Suc n) CHR ''t'')\<rparr>"

definition sampleContext :: "(unit, unit) operationContext" where
  "sampleContext = \<lparr>oc_operationId = ''op-1'', oc_context = 0,
     oc_systemContext = \<lparr>sc_conversationSteps = None, STEP_PERSIST_COUNT_KEY = None,
        AGENT_METADATA_CONTEXT_KEY = Some (''agent-1'', ''Supervisor''),
        sc_bailedResult = None\<rparr>,
     oc_isActive = True, oc_conversationSteps = Some [], oc_abortController = 0,
     oc_userId = Some ''user-1'', oc_conversationId = Some ''conv-1'',
     oc_parentAgentId = None, oc_output = None\<rparr>"

definition sampleWorld :: "unit recorderWorld" where
  "sampleWorld = \<lparr>saveConversationSteps = [], rootSpanAttributes = [],
     uuidsDrawn = 0, clockReads = 0\<rparr>"

definition sampleStep :: "unit stepResult" where
  "sampleStep = \<lparr>sr_content = Some [], sr_text = Some '' hi '',
     sr_toolCalls = Some [\<lparr>tc_toolCallId = ''call-1'', tc_toolName = ''search'',
                           tc_input = JObj [(''query'', JStr ''docs'')]\<rparr>],
     sr_toolResults = None, sr_usage = (), sr_responseMessages = None\<rparr>"

definition sampleStep2 :: "unit stepResult" where
  "sampleStep2 = \<lparr>sr_content = Some [], sr_text = Some ''done'',
     sr_toolCalls = None,
     sr_toolResults = Some [\<lparr>tr_toolCallId = ''call-1'', tr_toolName = ''search'',
                             tr_output = JObj [(''result'', JNum 42)]\<rparr>],
     sr_usage = (), sr_responseMessages = None\<rparr>"

subsection \<open>The operation context factory\<close>

definition callerEntries :: "'v contextInput option \<Rightarrow> ('v, 'x) factoryWorld \<Rightarrow> 'v ctxMap" where
  "callerEntries context w =
     (case context of
        None \<Rightarrow> []
      | Some (ContextMap a) \<Rightarrow> contextAt w a
      | Some (ContextRecord entries) \<Rightarrow>
          foldl (\<lambda>m (k, v). AList.update (KStr k) v m) [] entries)"

definition agentEntries :: "agentObj \<Rightarrow> ('v, 'x) factoryWorld \<Rightarrow> 'v ctxMap" where
  "agentEntries this w = (case this_context this of None \<Rightarrow> [] | Some a \<Rightarrow> contextAt w a)"

definition orElseOpt :: "'a option \<Rightarrow> 'a option \<Rightarrow> 'a option" where
  "orElseOpt x y = (case x of Some v \<Rightarrow> Some v | None \<Rightarrow> y)"

definition triggerEntries :: "'v factoryEnv \<Rightarrow> 'v ctxMap" where
  "triggerEntries env = (case activeTriggerContext env of None \<Rightarrow> [] | Some t \<Rightarrow> t)"

definition listenersWithin :: "nat \<Rightarrow> 'x abortControllerObj list \<Rightarrow> bool" where
  "listenersWithin n cs \<longleftrightarrow>
     (\<forall>c\<in>set cs. \<forall>l\<in>set (abortListeners c). case l of CascadeAbort t \<Rightarrow> t < n)"

definition cascadeReady :: "nat \<Rightarrow> 'x abortControllerObj list \<Rightarrow> bool" where
  "cascadeReady c cs \<longleftrightarrow>
     c < length cs \<and> \<not> aborted (cs ! c) \<and> abortListeners (cs ! c) = [] \<and>
     (\<forall>i<length cs. \<not> aborted (cs ! i) \<longrightarrow>
        (\<forall>l\<in>set (abortListeners (cs ! i)). case l of CascadeAbort t \<Rightarrow> t \<noteq> c))"

definition freshController :: "'x abortControllerObj" where
  "freshController = \<lparr>aborted = False, reason = None, abortListeners = []\<rparr>"

definition factorySampleWorld :: "(string, string) factoryWorld" where
  "factorySampleWorld =
     \<lparr>contextMaps = [[(KStr ''userId'', ''u1'')], [(KStr ''locale'', ''en'')]],
      abortControllers = [\<lparr>aborted = False, reason = None, abortListeners = []\<rparr>],
      operationIdsDrawn = 0\<rparr>"

definition sampleAgent :: agentObj where
  "sampleAgent = \<lparr>this_id = ''agent-2'', this_name = ''Worker'', this_context = Some 1\<rparr>"

definition sampleFactoryEnv :: "string factoryEnv" where
  "sampleFactoryEnv = \<lparr>activeTriggerContext = None,
     operationUUID = (\<lambda>n. replicate (Suc n) CHR ''o'')\<rparr>"

definition delegatedOptions :: "(unit, unit, string) generationOptions" where
  "delegatedOptions =
     \<lparr>opt_context = Some (ContextRecord [(''userId'', ''u2''), (''tenant'', ''t1'')]),
      opt_parentOperationContext = Some sampleContext,
      opt_abortSignal = Some 0,
      opt_userId = Some ''user-1'', opt_conversationId = Some ''conv-1'',
      opt_parentAgentId = Some ''agent-1''\<rparr>"

definition rootOptions :: "(unit, unit, string) generationOptions" where
  "rootOptions =
     \<lparr>opt_context = None, opt_parentOperationContext = None, opt_abortSignal = Some 0,
      opt_userId = Some ''user-1'', opt_conversationId = Some ''conv-1'',
      opt_parentAgentId = None\<rparr>"

subsection \<open>Error values\<close>

text \<open>
  The references among plain objects and arrays: \<open>children h a\<close> are the objects the
  fields or items of the object at \<open>a\<close> refer to, \<open>reaches h a b\<close> follows such
  references from \<open>a\<close> to \<open>b\<close>, and an object is self-referencing when one of its fields
  or items leads back to it, directly or through a cycle.
\<close>

definition refsOf :: "val list \<Rightarrow> nat list" where
  "refsOf vs = concat (map (\<lambda>v. case v of VRef b \<Rightarrow> [b] | _ \<Rightarrow> []) vs)"

definition children :: "heap \<Rightarrow> nat \<Rightarrow> nat list" where
  "children h a =
     (case objAt h a of
        Some (OPlain props) \<Rightarrow> refsOf (map snd props)
      | Some (OArray items) \<Rightarrow> refsOf items
      | _ \<Rightarrow> [])"

inductive reaches :: "heap \<Rightarrow> nat \<Rightarrow> nat \<Rightarrow> bool" for h where
  here: "reaches h a a"
| step: "c \<in> set (children h a) \<Longrightarrow> reaches h c b \<Longrightarrow> reaches h a b"

definition selfReferencing :: "heap \<Rightarrow> nat \<Rightarrow> bool" where
  "selfReferencing h r \<longleftrightarrow> (\<exists>c\<in>set (children h r). reaches h c r)"

text \<open>
  The environment used on concrete inputs: \<^verbatim>\<open>safeStringify\<close> as modelled above, and
  \<^verbatim>\<open>String\<close> on primitives and errors (any other object is given as
  \<^verbatim>\<open>[object Object]\<close>).
\<close>

definition sampleString :: "heap \<Rightarrow> val \<Rightarrow> string" where
  "sampleString h v =
     (case v of
        VUndefined \<Rightarrow> ''undefined''
      | VNull \<Rightarrow> ''null''
      | VBool b \<Rightarrow> (if b then ''true'' else ''false'')
      | VNum n \<Rightarrow> showInt n
      | VStr s \<Rightarrow> s
      | VRef a \<Rightarrow>
          (case objAt h a of
             Some (OError e) \<Rightarrow> err_name e @ '': '' @ err_message e
           | _ \<Rightarrow> ''[object Object]''))"

definition specEnv :: errorEnv where
  "specEnv = \<lparr>ee_safeStringify = safeStringify, ee_String = sampleString\<rparr>"

definition circularObjectHeap :: heap where
  "circularObjectHeap = [OPlain [(''self'', VRef 0)]]"

definition circularErrorHeap :: heap where
  "circularErrorHeap =
     [OError \<lparr>err_name = ''Error'', err_message = ''boom'', err_stack = Some ''Error: boom'',
              err_cause = VUndefined,
              err_ownProperties = [(''stack'', VStr ''Error: boom''), (''message'', VStr ''boom''),
                                   (''self'', VRef 0)]\<rparr>]"

definition selfContainingArrayHeap :: heap where
  "selfContainingArrayHeap = [OArray [VRef 0]]"

definition arrayOfCircularHeap :: heap where
  "arrayOfCircularHeap = [OArray [VRef 1], OPlain [(''self'', VRef 1)]]"

subsection \<open>The tool execution wrapper\<close>

text \<open>Concrete tools and hooks to exercise the wrapper; the user's state is a counter.\<close>

definition sampleToolEnv :: toolEnv where
  "sampleToolEnv =
     \<lparr>te_errorEnv = specEnv, te_stackLeft = 16, te_randomUUID = ''uuid-1'',
      te_newStack = (\<lambda>m. ''Error: '' @ m),
      te_isToolDeniedError = (\<lambda>h e. False)\<rparr>"

definition boomHeap :: heap where
  "boomHeap =
     [OError \<lparr>err_name = ''Error'', err_message = ''boom'', err_stack = Some ''Error: boom'',
              err_cause = VUndefined,
              err_ownProperties = [(''stack'', VStr ''Error: boom''), (''message'', VStr ''boom''),
                                   (''code'', VNum 42), (''tags'', VRef 3)]\<rparr>,
      OError \<lparr>err_name = ''Error'', err_message = ''loop'', err_stack = Some ''Error: loop'',
              err_cause = VUndefined,
              err_ownProperties = [(''stack'', VStr ''Error: loop''), (''message'', VStr ''loop''),
                                   (''items'', VRef 2)]\<rparr>,
      OArray [VRef 2],
      OArray [VStr ''io'', VNum 7]]"

definition failingTool :: "(unit, nat) toolObj" where
  "failingTool = \<lparr>tool_name = ''failing-tool'',
                   tool_execute = Some (\<lambda>args s. (Inl (Thrown (VRef 0)), Suc s)),
                   tool_safeParse = None\<rparr>"

definition loopingTool :: "(unit, nat) toolObj" where
  "loopingTool = \<lparr>tool_name = ''looping-tool'',
                   tool_execute = Some (\<lambda>args s. (Inl (Thrown (VRef 1)), Suc s)),
                   tool_safeParse = None\<rparr>"


definition noHooks :: "(unit, nat) toolHooks" where
  "noHooks = \<lparr>onToolStart = None, onToolEnd = None\<rparr>"


definition throwingEndHooks :: "(unit, nat) toolHooks" where
  "throwingEndHooks = \<lparr>onToolStart = None,
                        onToolEnd = Some (\<lambda>output error s.
                                            (Inl (Thrown (VStr ''hook failed'')), s))\<rparr>"


definition idleWorld :: "nat toolWorld" where
  "idleWorld = \<lparr>tw_state = 0, tw_events = []\<rparr>"

definition boomPayload :: "(string \<times> jsval) list" where
  "boomPayload =
     [(''error'', JBool True), (''name'', JStr ''Error''), (''message'', JStr ''boom''),
      (''stack'', JStr ''Error: boom''), (''toolCallId'', JStr ''call-1''),
      (''toolName'', JStr ''failing-tool''),
      (''code'', JNum 42), (''tags'', JArr [JStr ''io'', JNum 7])]"


text \<open>The own properties of an error that \<^verbatim>\<open>buildToolErrorResult\<close> does not copy.\<close>

definition skippedKeys :: "string set" where
  "skippedKeys = {''name'', ''message'', ''stack'', ''cause'', ''error''}"

text \<open>
  The values \<^verbatim>\<open>buildToolErrorResult\<close> hands to \<^verbatim>\<open>sanitizeErrorValue\<close>: the cause of the
  error, unless it is \<^verbatim>\<open>undefined\<close> or an \<^verbatim>\<open>Error\<close>, and the own properties that are
  neither skipped by name nor \<^verbatim>\<open>undefined\<close> nor functions.
\<close>

definition sanitizedValues :: "heap \<Rightarrow> errorObj \<Rightarrow> val list" where
  "sanitizedValues h error =
     (if err_cause error \<noteq> VUndefined \<and> asError h (err_cause error) = None
      then [err_cause error] else []) @
     map snd (filter (\<lambda>kv. fst kv \<notin> skippedKeys \<and> snd kv \<noteq> VUndefined \<and>
                            \<not> isFunction h (snd kv))
                (err_ownProperties error))"

text \<open>
  A value that is, followed through the items of arrays, a tree of arrays less than \<open>d\<close>
  deep (so no array in it contains itself) with no invalid date in it. Objects that are
  not arrays count as leaves, whatever they refer to.
\<close>

fun nestsWithin :: "nat \<Rightarrow> heap \<Rightarrow> val \<Rightarrow> bool" where
  "nestsWithin 0 h v = False"
| "nestsWithin (Suc d) h (VRef a) =
     (case objAt h a of
        Some (OArray items) \<Rightarrow> list_all (nestsWithin d h) items
      | Some (ODate t) \<Rightarrow> t \<noteq> None
      | _ \<Rightarrow> True)"
| "nestsWithin (Suc d) h VUndefined = True"
| "nestsWithin (Suc d) h VNull = True"
| "nestsWithin (Suc d) h (VBool b) = True"
| "nestsWithin (Suc d) h (VNum n) = True"
| "nestsWithin (Suc d) h (VStr s) = True"

subsection \<open>Streams and bail\<close>

text \<open>
  A stream set-up of an agent without sub-agents, a stream that is read to its end and
  one whose second read fails once the operation has been aborted.
\<close>

definition sampleStreamEnv :: "(string, string, string, unit, unit) streamEnv" where
  "sampleStreamEnv =
     \<lparr>hasSubAgents = False,
      createGuardrailPipeline = (\<lambda>full text output.
         \<lparr>gp_fullStream = full, gp_textStream = ''guarded:'' @ text,
          gp_createUIStream = (\<lambda>streamOptions. ''guarded-ui''), gp_sanitizedText = None\<rparr>),
      createMergedFullStream = (\<lambda>full. full),
      createMergedUIStream = (\<lambda>ui. ''merged:'' @ ui)\<rparr>"

definition completeResult :: "(string, string, string, unit) streamTextResult" where
  "completeResult =
     \<lparr>sdk_fullStream =
        [\<lparr>abortedBefore = False, settles = Inr (Value ''Hel''), abortedAfter = False\<rparr>,
         \<lparr>abortedBefore = False, settles = Inr (Value ''lo''), abortedAfter = False\<rparr>,
         \<lparr>abortedBefore = False, settles = Inr Done, abortedAfter = False\<rparr>],
      sdk_textStream = ''text-stream'',
      sdk_toUIMessageStream = (\<lambda>streamOptions. ''ui-stream''),
      sdk_text = ''Hello''\<rparr>"

definition abortedResult :: "(string, string, string, unit) streamTextResult" where
  "abortedResult =
     \<lparr>sdk_fullStream =
        [\<lparr>abortedBefore = False, settles = Inr (Value ''Hel''), abortedAfter = False\<rparr>,
         \<lparr>abortedBefore = False, settles = Inl (Failure ''AbortError''), abortedAfter = True\<rparr>],
      sdk_textStream = ''text-stream'',
      sdk_toUIMessageStream = (\<lambda>streamOptions. ''ui-stream''),
      sdk_text = ''Hel''\<rparr>"

text \<open>
  A supervisor's step in which the delegation tool reports a sub-agent that bailed, the
  same with an empty response, and a guardrail that replaces every output.
\<close>

definition bailedElement :: "string \<Rightarrow> jsval" where
  "bailedElement response =
     JObj [(''agentName'', JStr ''writer''), (''response'', JStr response),
           (''bailed'', JBool True)]"

definition bailStep :: "string \<Rightarrow> unit stepResult" where
  "bailStep response =
     \<lparr>sr_content = Some [TextPart ''delegating'',
                         ToolResultContent ''call-1'' ''delegate_task''
                           (JArr [JObj [(''agentName'', JStr ''reader''), (''response'', JStr ''read'')],
                                  bailedElement response])],
      sr_text = Some ''delegating'', sr_toolCalls = None, sr_toolResults = None,
      sr_usage = (), sr_responseMessages = None\<rparr>"

definition supervisorWorld :: "(unit, unit) handlerWorld" where
  "supervisorWorld =
     \<lparr>hw_oc = sampleContext,
      hw_abortControllers = [\<lparr>aborted = False, reason = None, abortListeners = []\<rparr>],
      hw_buffer = []\<rparr>"


definition silentHooks :: generationHooks where
  "silentHooks = \<lparr>hk_onEnd = None, hk_onError = None\<rparr>"

definition noPipeline :: "(string, string, string, unit) guardrailPipeline option" where
  "noPipeline = None"


text \<open>The operation context after the step handler has seen the bailing step.\<close>

definition bailedContext :: "string \<Rightarrow> (unit, unit) operationContext" where
  "bailedContext response = hw_oc (snd (createStepHandler None (bailStep response) supervisorWorld))"

definition abortedFinalResult :: modelResult where
  "abortedFinalResult = \<lparr>mr_text = ''partial'', mr_finishReason = ''error''\<rparr>"

section \<open>Properties\<close>

subsection \<open>The step recorder\<close>

lemma recordText_sameUpTo:
  "sameUpTo A st st' \<Longrightarrow>
   sameUpTo A (recordText env oc sub i u t st) (recordText env oc sub i u t st')"
  by (simp add: sameUpTo_def recordText_def Let_def eraseCreatedAt_def)

lemma recordToolCall_sameUpTo:
  "sameUpTo A st st' \<Longrightarrow>
   sameUpTo A (recordToolCall env oc sub i u st c) (recordToolCall env oc sub i u st' c)"
  by (simp add: sameUpTo_def recordToolCall_def Let_def eraseCreatedAt_def split: prod.splits)

lemma recordToolResult_sameUpTo:
  "sameUpTo A st st' \<Longrightarrow>
   sameUpTo A (recordToolResult env oc sub i u st c) (recordToolResult env oc sub i u st' c)"
  by (simp add: sameUpTo_def recordToolResult_def Let_def eraseCreatedAt_def split: prod.splits)

lemma foldl_recordToolCall_sameUpTo:
  "sameUpTo A st st' \<Longrightarrow>
   sameUpTo A (foldl (recordToolCall env oc sub i u) st cs)
              (foldl (recordToolCall env oc sub i u) st' cs)"
  by (induction cs arbitrary: st st') (simp_all add: recordToolCall_sameUpTo)

lemma foldl_recordToolResult_sameUpTo:
  "sameUpTo A st st' \<Longrightarrow>
   sameUpTo A (foldl (recordToolResult env oc sub i u) st cs)
              (foldl (recordToolResult env oc sub i u) st' cs)"
  by (induction cs arbitrary: st st') (simp_all add: recordToolResult_sameUpTo)

lemma sameUpTo_timestamp:
  "sameUpTo A st st' \<Longrightarrow>
   sameUpTo A (st\<lparr>ls_recordTimestamp := t, ls_clock := c\<rparr>)
              (st'\<lparr>ls_recordTimestamp := t', ls_clock := c'\<rparr>)"
  by (simp add: sameUpTo_def)

lemma recordStep_sameUpTo:
  assumes "sameUpTo A st st'"
  shows "sameUpTo A (recordStep env oc sub i s st) (recordStep env oc sub i s st')"
proof -
  define u where "u = convertUsage env (sr_usage s)"
  define t where "t = map_option trim (sr_text s)"
  define a where "a = (\<lambda>st. if truthyStr t then recordText env oc sub i u (the t) st else st)"
  define b where "b = (\<lambda>st. case sr_toolCalls s of None \<Rightarrow> st
                 | Some tcs \<Rightarrow> foldl (recordToolCall env oc sub i u) st tcs)"
  define c where "c = (\<lambda>st. case sr_toolResults s of None \<Rightarrow> st
                 | Some trs \<Rightarrow> foldl (recordToolResult env oc sub i u) st trs)"
  have a: "sameUpTo A (a st) (a st')" if "sameUpTo A st st'" for st st'
    using that by (simp add: a_def recordText_sameUpTo)
  have b: "sameUpTo A (b st) (b st')" if "sameUpTo A st st'" for st st'
    using that
    by (cases "sr_toolCalls s") (simp_all add: b_def foldl_recordToolCall_sameUpTo)
  have c: "sameUpTo A (c st) (c st')" if "sameUpTo A st st'" for st st'
    using that
    by (cases "sr_toolResults s") (simp_all add: c_def foldl_recordToolResult_sameUpTo)
  have eq: "recordStep env oc sub i s x =
      (c (b (a x)))\<lparr>ls_recordTimestamp := toISOString env (ls_clock (c (b (a x)))),
                 ls_clock := Suc (ls_clock (c (b (a x))))\<rparr>" for x
    unfolding recordStep_def Let_def a_def b_def c_def u_def t_def by (rule refl)
  have "sameUpTo A (c (b (a st))) (c (b (a st')))"
    using assms by (intro a b c)
  then show ?thesis
    unfolding eq by (rule sameUpTo_timestamp)
qed

lemma recordLoop_sameUpTo:
  "sameUpTo A st st' \<Longrightarrow>
   sameUpTo A (recordLoop env oc sub i ss st) (recordLoop env oc sub i ss st')"
  by (induction ss arbitrary: i st st') (simp_all add: recordStep_sameUpTo)

lemma recordLoop_append:
  "recordLoop env oc sub i (xs @ ys) st =
   recordLoop env oc sub (i + length xs) ys (recordLoop env oc sub i xs st)"
  by (induction xs arbitrary: i st) simp_all

lemma recordStep_oc_cong:
  assumes "oc_userId oc = oc_userId oc'" "oc_conversationId oc = oc_conversationId oc'"
    "oc_operationId oc = oc_operationId oc'"
  shows "recordStep env oc sub i s st = recordStep env oc' sub i s st"
proof -
  have 1: "recordText env oc = recordText env oc'"
    using assms by (simp add: recordText_def fun_eq_iff Let_def)
  have 2: "recordToolCall env oc = recordToolCall env oc'"
    using assms by (simp add: recordToolCall_def fun_eq_iff Let_def split_def)
  have 3: "recordToolResult env oc = recordToolResult env oc'"
    using assms by (simp add: recordToolResult_def fun_eq_iff Let_def split_def)
  show ?thesis unfolding recordStep_def 1 2 3 by (rule refl)
qed

lemma recordLoop_oc_cong:
  assumes "oc_userId oc = oc_userId oc'" "oc_conversationId oc = oc_conversationId oc'"
    "oc_operationId oc = oc_operationId oc'"
  shows "recordLoop env oc sub i ss st = recordLoop env oc' sub i ss st"
  by (induction ss arbitrary: i st) (simp_all add: recordStep_oc_cong [OF assms])

lemma extendsAt_refl: "extendsAt oc i st st"
  by (simp add: extendsAt_def)

lemma extendsAt_trans:
  "extendsAt oc i st st1 \<Longrightarrow> extendsAt oc i st1 st2 \<Longrightarrow> extendsAt oc i st st2"
  unfolding extendsAt_def by (elim exE conjE, rule_tac x="R @ Ra" in exI) auto

lemma recordText_extendsAt: "extendsAt oc i st (recordText env oc sub i u t st)"
  by (simp add: extendsAt_def recordText_def Let_def)

lemma recordToolCall_extendsAt: "extendsAt oc i st (recordToolCall env oc sub i u st c)"
  by (simp add: extendsAt_def recordToolCall_def Let_def split_def)

lemma recordToolResult_extendsAt: "extendsAt oc i st (recordToolResult env oc sub i u st c)"
  by (simp add: extendsAt_def recordToolResult_def Let_def split_def)

lemma foldl_recordToolCall_extendsAt:
  "extendsAt oc i st (foldl (recordToolCall env oc sub i u) st cs)"
proof (induction cs arbitrary: st)
  case Nil
  show ?case by (simp add: extendsAt_refl)
next
  case (Cons c cs)
  show ?case
    using extendsAt_trans [OF recordToolCall_extendsAt Cons.IH] by simp
qed

lemma foldl_recordToolResult_extendsAt:
  "extendsAt oc i st (foldl (recordToolResult env oc sub i u) st cs)"
proof (induction cs arbitrary: st)
  case Nil
  show ?case by (simp add: extendsAt_refl)
next
  case (Cons c cs)
  show ?case
    using extendsAt_trans [OF recordToolResult_extendsAt Cons.IH] by simp
qed

lemma extendsAt_timestamp:
  "extendsAt oc i st st' \<Longrightarrow>
   extendsAt oc i st (st'\<lparr>ls_recordTimestamp := t, ls_clock := c\<rparr>)"
  by (simp add: extendsAt_def)

lemma recordStep_extendsAt: "extendsAt oc i st (recordStep env oc sub i s st)"
proof -
  define u where "u = convertUsage env (sr_usage s)"
  define t where "t = map_option trim (sr_text s)"
  define a where "a = (\<lambda>st. if truthyStr t then recordText env oc sub i u (the t) st else st)"
  define b where "b = (\<lambda>st. case sr_toolCalls s of None \<Rightarrow> st
                 | Some tcs \<Rightarrow> foldl (recordToolCall env oc sub i u) st tcs)"
  define c where "c = (\<lambda>st. case sr_toolResults s of None \<Rightarrow> st
                 | Some trs \<Rightarrow> foldl (recordToolResult env oc sub i u) st trs)"
  have a: "extendsAt oc i x (a x)" for x
    by (simp add: a_def recordText_extendsAt extendsAt_refl)
  have b: "extendsAt oc i x (b x)" for x
    by (cases "sr_toolCalls s") (simp_all add: b_def foldl_recordToolCall_extendsAt extendsAt_refl)
  have c: "extendsAt oc i x (c x)" for x
    by (cases "sr_toolResults s")
      (simp_all add: c_def foldl_recordToolResult_extendsAt extendsAt_refl)
  have eq: "recordStep env oc sub i s x =
      (c (b (a x)))\<lparr>ls_recordTimestamp := toISOString env (ls_clock (c (b (a x)))),
                 ls_clock := Suc (ls_clock (c (b (a x))))\<rparr>" for x
    unfolding recordStep_def Let_def a_def b_def c_def u_def t_def by (rule refl)
  have "extendsAt oc i st (c (b (a st)))"
    by (rule extendsAt_trans [OF extendsAt_trans [OF a b] c])
  then show ?thesis
    unfolding eq by (rule extendsAt_timestamp)
qed

lemma recordLoop_extendsIn:
  "extendsIn oc i (i + length ss) st (recordLoop env oc sub i ss st)"
proof (induction ss arbitrary: i st)
  case Nil
  show ?case by (simp add: extendsIn_def)
next
  case (Cons s ss)
  obtain R1 where R1: "ls_stepRecords (recordStep env oc sub i s st) = ls_stepRecords st @ R1"
      "\<forall>r\<in>set R1. stepIndex r = i"
      "\<not> (truthyStr (oc_userId oc) \<and> truthyStr (oc_conversationId oc)) \<longrightarrow> R1 = []"
    using recordStep_extendsAt [of oc i st env sub s] unfolding extendsAt_def by blast
  obtain R2 where R2: "ls_stepRecords (recordLoop env oc sub (Suc i) ss (recordStep env oc sub i s st))
        = ls_stepRecords (recordStep env oc sub i s st) @ R2"
      "sorted (map stepIndex R2)"
      "\<forall>r\<in>set R2. Suc i \<le> stepIndex r \<and> stepIndex r < Suc i + length ss"
      "\<not> (truthyStr (oc_userId oc) \<and> truthyStr (oc_conversationId oc)) \<longrightarrow> R2 = []"
    using Cons.IH [of "Suc i" "recordStep env oc sub i s st"] unfolding extendsIn_def by blast
  have "map stepIndex R1 = replicate (length R1) i"
    using R1(2) by (induction R1) auto
  then have "sorted (map stepIndex R1)"
    by simp
  then have "sorted (map stepIndex (R1 @ R2))"
    using R1(2) R2(2,3) by (auto simp: sorted_append)
  moreover have "\<forall>r\<in>set (R1 @ R2). i \<le> stepIndex r \<and> stepIndex r < i + length (s # ss)"
    using R1(2) R2(3) by auto
  ultimately show ?case
    unfolding extendsIn_def using R1 R2
    by (intro exI [of _ "R1 @ R2"]) simp
qed

lemma recordStepResults_recordStoredSteps:
  "recordStepResults env steps (oc, w) =
     (if effectiveSteps steps oc = [] then (oc, w)
      else recordStoredSteps env (effectiveSteps steps oc) (oc, w))"
proof -
  define X where "X = (case steps of
                           Some ss \<Rightarrow> (if ss \<noteq> [] then Some ss
                                       else sc_conversationSteps (oc_systemContext oc))
                         | None \<Rightarrow> sc_conversationSteps (oc_systemContext oc))"
  have E: "effectiveSteps steps oc = (case X of None \<Rightarrow> [] | Some ss \<Rightarrow> ss)"
    by (simp add: effectiveSteps_def X_def split: option.splits)
  have R: "recordStepResults env steps (oc, w) =
     (case X of None \<Rightarrow> (oc, w) | Some [] \<Rightarrow> (oc, w)
      | Some (s # ss) \<Rightarrow> recordStoredSteps env (s # ss) (oc, w))"
    unfolding recordStepResults_def X_def Let_def fst_conv by (rule refl)
  show ?thesis
    unfolding R E by (simp split: option.splits list.splits)
qed

lemma recordStoredSteps_noop:
  assumes "length E \<le> persistedCount oc"
  shows "\<exists>oc'. recordStoredSteps env E (oc, w) = (oc', w) \<and> sameIdentity oc oc' \<and>
           persistedCount oc' = persistedCount oc \<and> stepsSoFar oc' = stepsSoFar oc"
proof -
  define oc1 where "oc1 = (case oc_conversationSteps oc of
                          None \<Rightarrow> oc\<lparr>oc_conversationSteps := Some []\<rparr>
                        | Some cs \<Rightarrow> oc)"
  have p: "(case STEP_PERSIST_COUNT_KEY (oc_systemContext oc1) of None \<Rightarrow> 0 | Some c \<Rightarrow> c)
            = persistedCount oc"
    by (simp add: oc1_def persistedCount_def split: option.splits)
  have "recordStoredSteps env E (oc, w) = (oc1, w)"
    unfolding recordStoredSteps_def Let_def prod.case oc1_def [symmetric] p using assms by simp
  moreover have "sameIdentity oc oc1"
    by (simp add: sameIdentity_def oc1_def split: option.splits)
  moreover have "persistedCount oc1 = persistedCount oc"
    by (simp add: oc1_def persistedCount_def split: option.splits)
  moreover have "stepsSoFar oc1 = stepsSoFar oc"
    by (simp add: oc1_def stepsSoFar_def split: option.splits)
  ultimately show ?thesis by blast
qed

lemma passLoop_records:
  "\<not> (truthyStr (oc_userId oc) \<and> truthyStr (oc_conversationId oc)) \<Longrightarrow>
   ls_stepRecords (passLoop env E oc w) = []"
  using recordLoop_extendsIn [of oc "persistedCount oc" "drop (persistedCount oc) E"
     "\<lparr>ls_conversationSteps = stepsSoFar oc, ls_stepRecords = [],
        ls_uuids = uuidsDrawn w, ls_clock = Suc (clockReads w),
        ls_recordTimestamp = toISOString env (clockReads w)\<rparr>" env "subAgentMetadataOf oc"]
  by (auto simp: passLoop_def extendsIn_def)

lemma recordStoredSteps_work:
  assumes "persistedCount oc < length E"
  shows "\<exists>oc' w'. recordStoredSteps env E (oc, w) = (oc', w') \<and> sameIdentity oc oc' \<and>
           persistedCount oc' = length E \<and>
           stepsSoFar oc' = ls_conversationSteps (passLoop env E oc w) \<and>
           uuidsDrawn w' = ls_uuids (passLoop env E oc w) \<and>
           saveConversationSteps w' = saveConversationSteps w @
             (if ls_stepRecords (passLoop env E oc w) = [] then []
              else [ls_stepRecords (passLoop env E oc w)])"
proof -
  define p where "p = persistedCount oc"
  define oc1 where "oc1 = (case oc_conversationSteps oc of
                          None \<Rightarrow> oc\<lparr>oc_conversationSteps := Some []\<rparr>
                        | Some cs \<Rightarrow> oc)"
  define oc2 where "oc2 = oc1\<lparr>oc_systemContext := (oc_systemContext oc1)
                                \<lparr>STEP_PERSIST_COUNT_KEY := Some (p + length (drop p E))\<rparr>\<rparr>"
  define w1 where "w1 = (if truthyStr (oc_conversationId oc2)
                             then w\<lparr>rootSpanAttributes := rootSpanAttributes w @
                                     [(''conversation.id'', the (oc_conversationId oc2)),
                                      (''voltagent.conversation_id'',
                                       the (oc_conversationId oc2))]\<rparr>
                             else w)"
  define sub where "sub = (if truthyStr (oc_parentAgentId oc2)
       then AGENT_METADATA_CONTEXT_KEY (oc_systemContext oc2) else None)"
  define st where "st = recordLoop env oc2 sub p (drop p E)
       \<lparr>ls_conversationSteps = the (oc_conversationSteps oc2), ls_stepRecords = [],
        ls_uuids = uuidsDrawn w1, ls_clock = Suc (clockReads w1),
        ls_recordTimestamp = toISOString env (clockReads w1)\<rparr>"
  define oc3 where "oc3 = oc2\<lparr>oc_conversationSteps := Some (ls_conversationSteps st)\<rparr>"
  define w2 where "w2 = w1\<lparr>uuidsDrawn := ls_uuids st, clockReads := ls_clock st\<rparr>"
  have p: "(case STEP_PERSIST_COUNT_KEY (oc_systemContext oc1) of None \<Rightarrow> 0 | Some c \<Rightarrow> c) = p"
    by (simp add: oc1_def persistedCount_def p_def split: option.splits)
  have id2: "oc_userId oc2 = oc_userId oc" "oc_conversationId oc2 = oc_conversationId oc"
    "oc_operationId oc2 = oc_operationId oc"
    by (simp_all add: oc2_def oc1_def split: option.splits)
  have sub: "sub = subAgentMetadataOf oc"
    by (simp add: sub_def subAgentMetadataOf_def oc2_def oc1_def split: option.splits)
  have cs: "the (oc_conversationSteps oc2) = stepsSoFar oc"
    by (simp add: oc2_def oc1_def stepsSoFar_def split: option.splits)
  have w1: "uuidsDrawn w1 = uuidsDrawn w" "clockReads w1 = clockReads w"
    "saveConversationSteps w1 = saveConversationSteps w"
    by (simp_all add: w1_def)
  have st: "st = passLoop env E oc w"
    unfolding st_def passLoop_def p_def [symmetric] sub cs w1
    by (rule recordLoop_oc_cong [OF id2])
  have ne: "drop p E \<noteq> []"
    using assms by (simp add: p_def)
  have res: "recordStoredSteps env E (oc, w) =
     (if ls_stepRecords st \<noteq> [] \<and> truthyStr (oc_userId oc3) \<and> truthyStr (oc_conversationId oc3)
      then (oc3, w2\<lparr>saveConversationSteps := saveConversationSteps w2 @ [ls_stepRecords st]\<rparr>)
      else (oc3, w2))"
    unfolding recordStoredSteps_def Let_def prod.case oc1_def [symmetric] p
      oc2_def [symmetric] w1_def [symmetric] sub_def [symmetric] st_def [symmetric]
      oc3_def [symmetric] w2_def [symmetric]
    using ne by simp
  have id3: "sameIdentity oc oc3"
    by (simp add: sameIdentity_def oc3_def oc2_def oc1_def split: option.splits)
  have c3: "persistedCount oc3 = length E"
    using assms by (simp add: persistedCount_def oc3_def oc2_def p_def)
  have s3: "stepsSoFar oc3 = ls_conversationSteps st"
    by (simp add: stepsSoFar_def oc3_def)
  have u3: "oc_userId oc3 = oc_userId oc" "oc_conversationId oc3 = oc_conversationId oc"
    using id3 by (simp_all add: sameIdentity_def)
  have rec: "ls_stepRecords st \<noteq> [] \<Longrightarrow>
      truthyStr (oc_userId oc3) \<and> truthyStr (oc_conversationId oc3)"
    using passLoop_records [of oc env E w] unfolding st u3 by blast
  show ?thesis
  proof (cases "ls_stepRecords st = []")
    case True
    then have "recordStoredSteps env E (oc, w) = (oc3, w2)"
      unfolding res by simp
    with True id3 c3 s3 show ?thesis
      unfolding st [symmetric] by (simp add: w2_def w1)
  next
    case False
    then have "recordStoredSteps env E (oc, w) =
        (oc3, w2\<lparr>saveConversationSteps := saveConversationSteps w2 @ [ls_stepRecords st]\<rparr>)"
      unfolding res using rec by simp
    with False id3 c3 s3 show ?thesis
      unfolding st [symmetric] by (simp add: w2_def w1)
  qed
qed

lemma sameIdentity_refl: "sameIdentity oc oc"
  by (simp add: sameIdentity_def)

lemma sameIdentity_sym: "sameIdentity oc oc' \<Longrightarrow> sameIdentity oc' oc"
  by (simp add: sameIdentity_def)

lemma sameIdentity_trans: "sameIdentity a b \<Longrightarrow> sameIdentity b c \<Longrightarrow> sameIdentity a c"
  by (simp add: sameIdentity_def)

lemma obsEq_refl: "obsEq s s"
  by (simp add: obsEq_def sameIdentity_refl)

lemma obsEq_sym: "obsEq s s' \<Longrightarrow> obsEq s' s"
  by (simp add: obsEq_def sameIdentity_sym)

lemma obsEq_trans: "obsEq a b \<Longrightarrow> obsEq b c \<Longrightarrow> obsEq a c"
  unfolding obsEq_def using sameIdentity_trans by metis

lemma sameIdentity_sub: "sameIdentity oc oc' \<Longrightarrow> subAgentMetadataOf oc' = subAgentMetadataOf oc"
  by (simp add: sameIdentity_def subAgentMetadataOf_def)

lemma passLoop_sim:
  assumes "sameIdentity oc oc'" "persistedCount oc' = persistedCount oc"
    "stepsSoFar oc' = stepsSoFar oc" "uuidsDrawn w' = uuidsDrawn w"
  shows "sameUpTo [] (passLoop env E oc w) (passLoop env E oc' w')"
proof -
  have id: "oc_userId oc' = oc_userId oc" "oc_conversationId oc' = oc_conversationId oc"
    "oc_operationId oc' = oc_operationId oc"
    using assms(1) by (simp_all add: sameIdentity_def)
  have init: "sameUpTo []
     \<lparr>ls_conversationSteps = stepsSoFar oc, ls_stepRecords = [],
        ls_uuids = uuidsDrawn w, ls_clock = Suc (clockReads w),
        ls_recordTimestamp = toISOString env (clockReads w)\<rparr>
     \<lparr>ls_conversationSteps = stepsSoFar oc, ls_stepRecords = [],
        ls_uuids = uuidsDrawn w, ls_clock = Suc (clockReads w'),
        ls_recordTimestamp = toISOString env (clockReads w')\<rparr>"
    by (simp add: sameUpTo_def)
  show ?thesis
    unfolding passLoop_def assms(2,3,4) sameIdentity_sub [OF assms(1)]
      recordLoop_oc_cong [OF id]
    by (rule recordLoop_sameUpTo [OF init])
qed

lemma passLoop_split:
  assumes "persistedCount oc < j" "j \<le> length E"
    "sameIdentity oc oc'" "persistedCount oc' = j"
    "stepsSoFar oc' = ls_conversationSteps (passLoop env (take j E) oc w)"
    "uuidsDrawn w' = ls_uuids (passLoop env (take j E) oc w)"
  shows "sameUpTo (map eraseCreatedAt (ls_stepRecords (passLoop env (take j E) oc w)))
           (passLoop env E oc w) (passLoop env E oc' w')"
proof -
  define p where "p = persistedCount oc"
  define st0 where "st0 = \<lparr>ls_conversationSteps = stepsSoFar oc, ls_stepRecords = [],
        ls_uuids = uuidsDrawn w, ls_clock = Suc (clockReads w),
        ls_recordTimestamp = toISOString env (clockReads w)\<rparr>"
  define st1 where "st1 = passLoop env (take j E) oc w"
  have id: "oc_userId oc' = oc_userId oc" "oc_conversationId oc' = oc_conversationId oc"
    "oc_operationId oc' = oc_operationId oc"
    using assms(3) by (simp_all add: sameIdentity_def)
  have d: "drop p E = drop p (take j E) @ drop j E"
    using assms(1,2) unfolding p_def [symmetric]
    by (metis append_take_drop_id drop_append less_imp_le_nat length_take min.absorb2
        diff_is_0_eq drop0)
  have l: "p + length (drop p (take j E)) = j"
    using assms(1,2) unfolding p_def [symmetric] by simp
  have one: "passLoop env E oc w =
      recordLoop env oc (subAgentMetadataOf oc) j (drop j E) st1"
    unfolding passLoop_def p_def [symmetric] st0_def [symmetric] st1_def d recordLoop_append l
    by (rule refl)
  have init: "sameUpTo (map eraseCreatedAt (ls_stepRecords st1)) st1
     \<lparr>ls_conversationSteps = ls_conversationSteps st1, ls_stepRecords = [],
        ls_uuids = ls_uuids st1, ls_clock = Suc (clockReads w'),
        ls_recordTimestamp = toISOString env (clockReads w')\<rparr>"
    by (simp add: sameUpTo_def)
  have two: "passLoop env E oc' w' =
      recordLoop env oc (subAgentMetadataOf oc) j (drop j E)
     \<lparr>ls_conversationSteps = ls_conversationSteps st1, ls_stepRecords = [],
        ls_uuids = ls_uuids st1, ls_clock = Suc (clockReads w'),
        ls_recordTimestamp = toISOString env (clockReads w')\<rparr>"
    unfolding passLoop_def assms(4,5,6) sameIdentity_sub [OF assms(3)] st1_def
      recordLoop_oc_cong [OF id]
    by (rule refl)
  show ?thesis
    unfolding one two st1_def [symmetric] by (rule recordLoop_sameUpTo [OF init])
qed

lemma obsEq_recordStoredSteps:
  assumes "obsEq (oc, w) (oc', w')"
  shows "obsEq (recordStoredSteps env E (oc, w)) (recordStoredSteps env E (oc', w'))"
proof -
  have a: "sameIdentity oc oc'" "persistedCount oc' = persistedCount oc"
    "stepsSoFar oc' = stepsSoFar oc" "uuidsDrawn w' = uuidsDrawn w"
    "map eraseCreatedAt (concat (saveConversationSteps w')) =
       map eraseCreatedAt (concat (saveConversationSteps w))"
    using assms by (simp_all add: obsEq_def)
  show ?thesis
  proof (cases "length E \<le> persistedCount oc")
    case True
    obtain o1 where 1: "recordStoredSteps env E (oc, w) = (o1, w)" "sameIdentity oc o1"
        "persistedCount o1 = persistedCount oc" "stepsSoFar o1 = stepsSoFar oc"
      using recordStoredSteps_noop [OF True] by blast
    obtain o2 where 2: "recordStoredSteps env E (oc', w') = (o2, w')" "sameIdentity oc' o2"
        "persistedCount o2 = persistedCount oc'" "stepsSoFar o2 = stepsSoFar oc'"
      using recordStoredSteps_noop [of E oc'] True a(2) by auto
    have "sameIdentity o1 o2"
      using 1(2) 2(2) a(1) sameIdentity_sym sameIdentity_trans by blast
    then show ?thesis
      unfolding 1(1) 2(1) obsEq_def using 1 2 a by simp
  next
    case False
    then have lt: "persistedCount oc < length E" "persistedCount oc' < length E"
      using a(2) by simp_all
    obtain o1 w1 where 1: "recordStoredSteps env E (oc, w) = (o1, w1)" "sameIdentity oc o1"
        "persistedCount o1 = length E"
        "stepsSoFar o1 = ls_conversationSteps (passLoop env E oc w)"
        "uuidsDrawn w1 = ls_uuids (passLoop env E oc w)"
        "saveConversationSteps w1 = saveConversationSteps w @
             (if ls_stepRecords (passLoop env E oc w) = [] then []
              else [ls_stepRecords (passLoop env E oc w)])"
      using recordStoredSteps_work [OF lt(1)] by blast
    obtain o2 w2 where 2: "recordStoredSteps env E (oc', w') = (o2, w2)" "sameIdentity oc' o2"
        "persistedCount o2 = length E"
        "stepsSoFar o2 = ls_conversationSteps (passLoop env E oc' w')"
        "uuidsDrawn w2 = ls_uuids (passLoop env E oc' w')"
        "saveConversationSteps w2 = saveConversationSteps w' @
             (if ls_stepRecords (passLoop env E oc' w') = [] then []
              else [ls_stepRecords (passLoop env E oc' w')])"
      using recordStoredSteps_work [OF lt(2)] by blast
    have sim: "sameUpTo [] (passLoop env E oc w) (passLoop env E oc' w')"
      by (rule passLoop_sim [OF a(1,2,3,4)])
    have c1: "concat (saveConversationSteps w1) =
        concat (saveConversationSteps w) @ ls_stepRecords (passLoop env E oc w)"
      unfolding 1(6) by simp
    have c2: "concat (saveConversationSteps w2) =
        concat (saveConversationSteps w') @ ls_stepRecords (passLoop env E oc' w')"
      unfolding 2(6) by simp
    have "sameIdentity o1 o2"
      using 1(2) 2(2) a(1) sameIdentity_sym sameIdentity_trans by blast
    then show ?thesis
      unfolding 1(1) 2(1) obsEq_def using 1(3,4,5) 2(3,4,5) sim a(5)
      by (simp add: c1 c2 sameUpTo_def)
  qed
qed

lemma obsEq_two_passes:
  assumes "j \<le> length E"
  shows "obsEq (recordStoredSteps env E (oc, w)) (recordStoredSteps env E (recordStoredSteps env (take j E) (oc, w)))"
proof (cases "j \<le> persistedCount oc")
  case True
  then have "length (take j E) \<le> persistedCount oc"
    by simp
  then obtain o1 where 1: "recordStoredSteps env (take j E) (oc, w) = (o1, w)" "sameIdentity oc o1"
      "persistedCount o1 = persistedCount oc" "stepsSoFar o1 = stepsSoFar oc"
    using recordStoredSteps_noop by blast
  have "obsEq (oc, w) (o1, w)"
    using 1 by (simp add: obsEq_def)
  then show ?thesis
    unfolding 1(1) by (rule obsEq_recordStoredSteps)
next
  case False
  then have lt: "persistedCount oc < j"
    by simp
  have len: "length (take j E) = j"
    using assms by simp
  have lt1: "persistedCount oc < length (take j E)"
    using lt len by simp
  obtain o1 w1 where 1: "recordStoredSteps env (take j E) (oc, w) = (o1, w1)" "sameIdentity oc o1"
      "persistedCount o1 = j"
      "stepsSoFar o1 = ls_conversationSteps (passLoop env (take j E) oc w)"
      "uuidsDrawn w1 = ls_uuids (passLoop env (take j E) oc w)"
      "saveConversationSteps w1 = saveConversationSteps w @
             (if ls_stepRecords (passLoop env (take j E) oc w) = [] then []
              else [ls_stepRecords (passLoop env (take j E) oc w)])"
    using recordStoredSteps_work [OF lt1] unfolding len by blast
  have c1: "concat (saveConversationSteps w1) =
        concat (saveConversationSteps w) @ ls_stepRecords (passLoop env (take j E) oc w)"
    unfolding 1(6) by simp
  show ?thesis
  proof (cases "j = length E")
    case True
    then have E: "take j E = E"
      by simp
    have "length E \<le> persistedCount o1"
      using 1(3) True by simp
    then obtain o2 where 2: "recordStoredSteps env E (o1, w1) = (o2, w1)" "sameIdentity o1 o2"
        "persistedCount o2 = persistedCount o1" "stepsSoFar o2 = stepsSoFar o1"
      using recordStoredSteps_noop by blast
    have "obsEq (o1, w1) (o2, w1)"
      using 2 by (simp add: obsEq_def)
    then show ?thesis
      using 1(1) 2(1) unfolding E by simp
  next
    case False
    then have ltE: "j < length E" "persistedCount oc < length E" "persistedCount o1 < length E"
      using assms lt 1(3) by simp_all
    obtain o2 w2 where 2: "recordStoredSteps env E (o1, w1) = (o2, w2)" "sameIdentity o1 o2"
        "persistedCount o2 = length E"
        "stepsSoFar o2 = ls_conversationSteps (passLoop env E o1 w1)"
        "uuidsDrawn w2 = ls_uuids (passLoop env E o1 w1)"
        "saveConversationSteps w2 = saveConversationSteps w1 @
             (if ls_stepRecords (passLoop env E o1 w1) = [] then []
              else [ls_stepRecords (passLoop env E o1 w1)])"
      using recordStoredSteps_work [OF ltE(3)] by blast
    obtain o3 w3 where 3: "recordStoredSteps env E (oc, w) = (o3, w3)" "sameIdentity oc o3"
        "persistedCount o3 = length E"
        "stepsSoFar o3 = ls_conversationSteps (passLoop env E oc w)"
        "uuidsDrawn w3 = ls_uuids (passLoop env E oc w)"
        "saveConversationSteps w3 = saveConversationSteps w @
             (if ls_stepRecords (passLoop env E oc w) = [] then []
              else [ls_stepRecords (passLoop env E oc w)])"
      using recordStoredSteps_work [OF ltE(2)] by blast
    have c2: "concat (saveConversationSteps w2) =
        concat (saveConversationSteps w1) @ ls_stepRecords (passLoop env E o1 w1)"
      unfolding 2(6) by simp
    have c3: "concat (saveConversationSteps w3) =
        concat (saveConversationSteps w) @ ls_stepRecords (passLoop env E oc w)"
      unfolding 3(6) by simp
    have sim: "sameUpTo (map eraseCreatedAt (ls_stepRecords (passLoop env (take j E) oc w)))
           (passLoop env E oc w) (passLoop env E o1 w1)"
      by (rule passLoop_split [OF lt assms 1(2,3,4,5)])
    have "sameIdentity o3 o2"
      using 1(2) 2(2) 3(2) sameIdentity_sym sameIdentity_trans by blast
    then show ?thesis
      unfolding 1(1) 2(1) 3(1) obsEq_def using 2(3,4,5) 3(3,4,5) sim
      by (simp add: c1 c2 c3 sameUpTo_def)
  qed
qed




text \<open>
  Claim C3. For a fixed list \<open>steps\<close> of model steps, a recording pass over its first
  \<open>k\<close> steps followed by a pass over the whole list hands the memory manager the same
  records, in the same order, as one pass over the whole list, and leaves the same
  persisted-step counter: the second pass converts only the steps beyond the counter, so
  no step is recorded twice. The records are compared up to \<open>createdAt\<close>, which is a
  reading of the wall clock. The steps that the step handler has stored in the system
  context are a prefix of the list.
\<close>

theorem recordStepResults_second_pass_adds_no_duplicates:
  assumes "k \<le> length steps"
    and "case sc_conversationSteps (oc_systemContext oc) of
           None \<Rightarrow> True | Some ss \<Rightarrow> prefix ss steps"
  shows "map eraseCreatedAt (concat (saveConversationSteps (snd
            (recordStepResults env (Some steps)
               (recordStepResults env (Some (take k steps)) (oc, w)))))) =
         map eraseCreatedAt (concat (saveConversationSteps (snd
            (recordStepResults env (Some steps) (oc, w))))) \<and>
         persistedCount (fst (recordStepResults env (Some steps)
               (recordStepResults env (Some (take k steps)) (oc, w)))) =
         persistedCount (fst (recordStepResults env (Some steps) (oc, w)))"
proof -
  define first where "first = recordStepResults env (Some (take k steps)) (oc, w)"
  define E1 where "E1 = effectiveSteps (Some (take k steps)) oc"
  have "obsEq (recordStepResults env (Some steps) (oc, w))
          (recordStepResults env (Some steps) first)"
  proof (cases "steps = []")
    case True
    then have "sc_conversationSteps (oc_systemContext oc) = None \<or>
        sc_conversationSteps (oc_systemContext oc) = Some []"
      using assms(2) by (simp split: option.splits)
    then have e: "effectiveSteps (Some []) oc = []"
      by (auto simp: effectiveSteps_def)
    have "recordStepResults env (Some []) (oc, w) = (oc, w)"
      by (simp add: recordStepResults_recordStoredSteps e)
    then show ?thesis
      unfolding first_def True by (simp add: obsEq_refl)
  next
    case ne: False
    have eff: "effectiveSteps (Some steps) x = steps" for x :: "('a, 'b) operationContext"
      using ne by (simp add: effectiveSteps_def)
    have once: "recordStepResults env (Some steps) (oc, w) = recordStoredSteps env steps (oc, w)"
      using ne by (simp add: recordStepResults_recordStoredSteps eff)
    have twice: "recordStepResults env (Some steps) first = recordStoredSteps env steps first"
      using ne recordStepResults_recordStoredSteps [of env "Some steps" "fst first" "snd first"]
      by (simp add: eff)
    obtain j where j: "j \<le> length steps" "E1 = take j steps"
    proof (cases "take k steps = []")
      case True
      then have "E1 = (case sc_conversationSteps (oc_systemContext oc) of
                      None \<Rightarrow> [] | Some ss \<Rightarrow> ss)"
        by (simp add: E1_def effectiveSteps_def)
      then have "prefix E1 steps"
        using assms(2) by (simp split: option.splits)
      then have "E1 = take (length E1) steps" "length E1 \<le> length steps"
        by (auto simp: prefix_def)
      then show ?thesis
        using that by blast
    next
      case False
      then have "E1 = take k steps"
        by (simp add: E1_def effectiveSteps_def)
      then show ?thesis
        using that assms(1) by blast
    qed
    have first: "first = (if E1 = [] then (oc, w) else recordStoredSteps env (take j steps) (oc, w))"
      unfolding first_def using j(2) by (simp add: recordStepResults_recordStoredSteps E1_def)
    show ?thesis
    proof (cases "E1 = []")
      case True
      then have "first = (oc, w)"
        using first by simp
      then show ?thesis
        by (simp add: obsEq_refl)
    next
      case False
      then have "first = recordStoredSteps env (take j steps) (oc, w)"
        using first by simp
      then show ?thesis
        unfolding twice once by (simp add: obsEq_two_passes [OF j(1)])
    qed
  qed
  then show ?thesis
    unfolding first_def obsEq_def by simp
qed

theorem recordStepResults_second_pass_adds_no_duplicates_witness:
  "(1::nat) \<le> length [sampleStep, sampleStep2] \<and>
   (case sc_conversationSteps (oc_systemContext sampleContext) of
      None \<Rightarrow> True | Some ss \<Rightarrow> prefix ss [sampleStep, sampleStep2]) \<and>
   map eraseCreatedAt (concat (saveConversationSteps (snd
      (recordStepResults sampleEnv (Some [sampleStep, sampleStep2])
         (recordStepResults sampleEnv (Some (take 1 [sampleStep, sampleStep2]))
            (sampleContext, sampleWorld)))))) =
   map eraseCreatedAt (concat (saveConversationSteps (snd
      (recordStepResults sampleEnv (Some [sampleStep, sampleStep2])
         (sampleContext, sampleWorld)))))"
proof -
  have h1: "(1::nat) \<le> length [sampleStep, sampleStep2]"
    by simp
  have h2: "case sc_conversationSteps (oc_systemContext sampleContext) of
      None \<Rightarrow> True | Some ss \<Rightarrow> prefix ss [sampleStep, sampleStep2]"
    by (simp add: sampleContext_def)
  show ?thesis
    using recordStepResults_second_pass_adds_no_duplicates
      [OF h1 h2, of sampleEnv sampleWorld] h1 h2
    by blast
qed




subsection \<open>The operation context factory\<close>

lemma fillMissing_map_of:
  "map_of (fillMissing source m) k = orElseOpt (map_of m k) (map_of source k)"
  unfolding fillMissing_def
proof (induction source arbitrary: m)
  case Nil
  show ?case by (simp add: orElseOpt_def split: option.splits)
next
  case (Cons e es)
  obtain k' v' where e: "e = (k', v')" by (cases e)
  have "map_of (foldl (\<lambda>m (k, v). if has m k then m else AList.update k v m) m (e # es)) k =
      orElseOpt (map_of (if has m k' then m else AList.update k' v' m) k) (map_of es k)"
    unfolding e by (simp add: Cons.IH)
  also have "\<dots> = orElseOpt (map_of m k) (map_of (e # es) k)"
    unfolding e by (simp add: has_def update_conv' orElseOpt_def split: option.splits)
  finally show ?case .
qed

lemma length_fillFrom [simp]: "length (contextMaps (fillFrom s t w)) = length (contextMaps w)"
  by (simp add: fillFrom_def setContextAt_def)

lemma contextAt_fillFrom:
  "t < length (contextMaps w) \<Longrightarrow>
   contextAt (fillFrom s t w) a =
     (if a = t then fillMissing (contextAt w s) (contextAt w t) else contextAt w a)"
  by (simp add: fillFrom_def setContextAt_def contextAt_def)

lemma toContextMap_props:
  assumes "toContextMap c w = (rc, w')"
  shows "length (contextMaps w) \<le> length (contextMaps w')"
    and "a < length (contextMaps w) \<Longrightarrow> contextAt w' a = contextAt w a"
    and "(case rc of None \<Rightarrow> [] | Some r \<Rightarrow> contextAt w' r) = callerEntries c w"
    and "abortControllers w' = abortControllers w"
  using assms
  by (auto simp: toContextMap_def newMap_def contextAt_def callerEntries_def nth_append
      split: option.splits contextInput.splits)

lemma contextAt_cong: "contextMaps w' = contextMaps w \<Longrightarrow> contextAt w' a = contextAt w a"
  by (simp add: contextAt_def)

lemma orElseOpt_simps [simp]:
  "orElseOpt None y = y" "orElseOpt (Some v) y = Some v" "orElseOpt x None = x"
  by (simp_all add: orElseOpt_def split: option.splits)

lemma orElseOpt_assoc: "orElseOpt (orElseOpt x y) z = orElseOpt x (orElseOpt y z)"
  by (cases x) simp_all

lemma orElseOpt_self: "orElseOpt x x = x"
  by (cases x) simp_all

lemma orElseOpt_absorb: "orElseOpt x (orElseOpt y x) = orElseOpt x y"
  by (cases x; cases y) simp_all

lemma resolveContext_parent:
  assumes par: "opt_parentOperationContext options = Some p"
    and res: "resolveContext this env options w = (c, w')"
    and pc: "oc_context p < length (contextMaps w)"
    and ac: "case this_context this of None \<Rightarrow> True | Some a \<Rightarrow> a < length (contextMaps w)"
  shows "c = oc_context p"
    and "map_of (contextAt w' (oc_context p)) k =
         orElseOpt (map_of (contextAt w (oc_context p)) k)
           (orElseOpt (map_of (callerEntries (opt_context options) w) k)
              (orElseOpt (map_of (agentEntries this w) k) (map_of (triggerEntries env) k)))"
    and "abortControllers w' = abortControllers w"
    and "operationIdsDrawn w' = operationIdsDrawn w"
proof -
  obtain rc w2 where t: "toContextMap (opt_context options) w = (rc, w2)"
    by (cases "toContextMap (opt_context options) w")
  define wa where "wa = (case rc of Some r \<Rightarrow> fillFrom r (oc_context p) w2 | None \<Rightarrow> w2)"
  define wb where "wb = (case this_context this of
                              Some a \<Rightarrow> fillFrom a (oc_context p) wa | None \<Rightarrow> wa)"
  define w4 where "w4 = (case activeTriggerContext env of
                  Some trigger \<Rightarrow>
                    setContextAt (oc_context p)
                      (fillMissing trigger (contextAt wb (oc_context p))) wb
                | None \<Rightarrow> wb)"
  have "resolveContext this env options w = (oc_context p, w4)"
    unfolding resolveContext_def Let_def t par prod.case option.case option.map
      wa_def [symmetric] wb_def [symmetric] w4_def [symmetric]
    by (rule refl)
  then have w': "w' = w4" and c: "c = oc_context p"
    using res by simp_all
  show "c = oc_context p"
    by (rule c)
  note tp = toContextMap_props [OF t]
  have other2: "abortControllers w2 = abortControllers w" "operationIdsDrawn w2 = operationIdsDrawn w"
    using t by (auto simp: toContextMap_def newMap_def split: option.splits contextInput.splits)
  have othera: "abortControllers wa = abortControllers w" "operationIdsDrawn wa = operationIdsDrawn w"
    using other2 by (simp_all add: wa_def fillFrom_def setContextAt_def split: option.splits)
  have otherb: "abortControllers wb = abortControllers w" "operationIdsDrawn wb = operationIdsDrawn w"
    using othera by (simp_all add: wb_def fillFrom_def setContextAt_def split: option.splits)
  show "abortControllers w' = abortControllers w" "operationIdsDrawn w' = operationIdsDrawn w"
    using otherb by (simp_all add: w' w4_def setContextAt_def split: option.splits)
  have l2: "oc_context p < length (contextMaps w2)"
    using tp(1) pc by simp
  have old2: "contextAt w2 a = contextAt w a" if "a < length (contextMaps w)" for a
    using tp(2) [of a] that by simp
  have caller: "(case rc of None \<Rightarrow> [] | Some r \<Rightarrow> contextAt w2 r) =
      callerEntries (opt_context options) w"
    using tp(3) .
  have a1: "map_of (contextAt wa (oc_context p)) k =
      orElseOpt (map_of (contextAt w (oc_context p)) k)
        (map_of (callerEntries (opt_context options) w) k)"
    using caller l2 old2 [OF pc]
    by (cases rc) (simp_all add: wa_def contextAt_fillFrom fillMissing_map_of)
  have la: "length (contextMaps wa) = length (contextMaps w2)"
    by (simp add: wa_def split: option.splits)
  have a2: "contextAt wa a = contextAt w a"
    if "a < length (contextMaps w)" "a \<noteq> oc_context p" for a
    using that l2 old2 by (cases rc) (simp_all add: wa_def contextAt_fillFrom)
  have b1: "map_of (contextAt wb (oc_context p)) k =
      orElseOpt (map_of (contextAt w (oc_context p)) k)
        (orElseOpt (map_of (callerEntries (opt_context options) w) k)
           (map_of (agentEntries this w) k))"
  proof (cases "this_context this")
    case None
    then show ?thesis
      by (simp add: wb_def a1 agentEntries_def)
  next
    case (Some a)
    then have av: "a < length (contextMaps w)"
      using ac by simp
    have lp: "oc_context p < length (contextMaps wa)"
      using l2 la by simp
    show ?thesis
    proof (cases "a = oc_context p")
      case True
      then show ?thesis
        using Some lp
        by (simp add: wb_def contextAt_fillFrom fillMissing_map_of a1 agentEntries_def
            orElseOpt_self orElseOpt_absorb)
    next
      case False
      then show ?thesis
        using Some lp a2 [OF av False]
        by (simp add: wb_def contextAt_fillFrom fillMissing_map_of a1 agentEntries_def
            orElseOpt_assoc)
    qed
  qed
  have lb: "oc_context p < length (contextMaps wb)"
    using l2 la by (simp add: wb_def split: option.splits)
  have "map_of (contextAt w4 (oc_context p)) k =
      orElseOpt (map_of (contextAt wb (oc_context p)) k) (map_of (triggerEntries env) k)"
    using lb
    by (cases "activeTriggerContext env")
      (simp_all add: w4_def triggerEntries_def setContextAt_def contextAt_def fillMissing_map_of)
  then show "map_of (contextAt w' (oc_context p)) k =
         orElseOpt (map_of (contextAt w (oc_context p)) k)
           (orElseOpt (map_of (callerEntries (opt_context options) w) k)
              (orElseOpt (map_of (agentEntries this w) k) (map_of (triggerEntries env) k)))"
    unfolding w' b1 by (simp add: orElseOpt_assoc)
qed

lemma runAborts_reaches_last:
  assumes "work = W @ [(c, r)]" "\<forall>p\<in>set W. fst p \<noteq> c" "cascadeReady c cs"
  shows "aborted (runAborts work cs ! c) \<and> reason (runAborts work cs ! c) = Some r"
  using assms
proof (induction work cs arbitrary: W rule: runAborts.induct)
  case (1 cs)
  then show ?case by simp
next
  case (2 t x rest cs)
  show ?case
  proof (cases W)
    case Nil
    then have tx: "t = c" "x = r" "rest = []"
      using "2.prems"(1) by simp_all
    have "c < length cs" "\<not> aborted (cs ! c)" "abortListeners (cs ! c) = []"
      using "2.prems"(3) by (simp_all add: cascadeReady_def)
    then show ?thesis
      unfolding tx by simp
  next
    case (Cons p W')
    then have p: "p = (t, x)" and rest: "rest = W' @ [(c, r)]"
      using "2.prems"(1) by simp_all
    have tc: "t \<noteq> c" and W': "\<forall>p\<in>set W'. fst p \<noteq> c"
      using "2.prems"(2) Cons p by auto
    show ?thesis
    proof (cases "t < length cs \<and> \<not> aborted (cs ! t)")
      case True
      let ?cs = "cs[t := (cs ! t)\<lparr>aborted := True, reason := Some x\<rparr>]"
      let ?L = "map (\<lambda>l. case l of CascadeAbort u \<Rightarrow> (u, x)) (abortListeners (cs ! t))"
      have L: "\<forall>p\<in>set ?L. fst p \<noteq> c"
        using "2.prems"(3) True by (auto simp: cascadeReady_def split: abortListener.splits)
      have ready: "cascadeReady c ?cs"
        using "2.prems"(3) True tc
        by (auto simp: cascadeReady_def nth_list_update)
      have eq: "?L @ rest = (?L @ W') @ [(c, r)]"
        using rest by simp
      have all: "\<forall>p\<in>set (?L @ W'). fst p \<noteq> c"
        using L W' by auto
      have "aborted (runAborts (?L @ rest) ?cs ! c) \<and>
            reason (runAborts (?L @ rest) ?cs ! c) = Some r"
        by (rule "2.IH"(1) [OF True eq all ready])
      then show ?thesis
        using True by simp
    next
      case False
      have "aborted (runAborts rest cs ! c) \<and> reason (runAborts rest cs ! c) = Some r"
        using "2.IH"(2) [OF False rest W' "2.prems"(3)] .
      then show ?thesis
        using False by auto
    qed
  qed
qed

lemma runAborts_no_listeners:
  assumes "c < length cs" "abortListeners (cs ! c) = []" "\<not> aborted (cs ! c)"
  shows "runAborts [(c, r)] cs = cs[c := (cs ! c)\<lparr>aborted := True, reason := Some r\<rparr>]"
  using assms by simp

lemma controllers_toContextMap:
  "toContextMap c w = (rc, w') \<Longrightarrow> abortControllers w' = abortControllers w"
  by (auto simp: toContextMap_def newMap_def split: option.splits contextInput.splits)

lemma controllers_fillFrom [simp]: "abortControllers (fillFrom s t w) = abortControllers w"
  by (simp add: fillFrom_def setContextAt_def)

lemma controllers_setContextAt [simp]: "abortControllers (setContextAt a m w) = abortControllers w"
  by (simp add: setContextAt_def)

lemma controllers_newMap: "newMap m w = (a, w') \<Longrightarrow> abortControllers w' = abortControllers w"
  by (auto simp: newMap_def)

lemma controllers_resolveContext:
  "resolveContext this env options w = (c, w') \<Longrightarrow> abortControllers w' = abortControllers w"
proof -
  assume res: "resolveContext this env options w = (c, w')"
  obtain rc w2 where t: "toContextMap (opt_context options) w = (rc, w2)"
    by (cases "toContextMap (opt_context options) w")
  have c2: "abortControllers w2 = abortControllers w"
    by (rule controllers_toContextMap [OF t])
  show ?thesis
    using res c2 unfolding resolveContext_def Let_def t prod.case
    by (auto simp: newMap_def split: option.splits prod.splits)
qed

lemma wireAbortController_parent:
  assumes "opt_parentOperationContext options = Some p"
  shows "wireAbortController options w = (oc_abortController p, w)"
  using assms by (simp add: wireAbortController_def)

lemma wireAbortController_no_parent:
  assumes "opt_parentOperationContext options = None"
  shows "wireAbortController options w =
     (length (abortControllers w),
      case opt_abortSignal options of
        None \<Rightarrow> w\<lparr>abortControllers := abortControllers w @ [freshController]\<rparr>
      | Some e \<Rightarrow> addEventListener e (CascadeAbort (length (abortControllers w)))
                   (w\<lparr>abortControllers := abortControllers w @ [freshController]\<rparr>))"
  using assms
  by (simp add: wireAbortController_def newAbortController_def freshController_def
      split: option.splits)

lemma createOperationContext_parts:
  assumes "createOperationContext this env options w = (oc, w')"
  shows "\<exists>w1. resolveContext this env options
                (w\<lparr>operationIdsDrawn := Suc (operationIdsDrawn w)\<rparr>) = (oc_context oc, w1) \<and>
              wireAbortController options w1 = (oc_abortController oc, w')"
  using assms unfolding createOperationContext_def Let_def
  by (auto split: prod.splits)

lemma callerEntries_cong:
  "contextMaps w' = contextMaps w \<Longrightarrow> callerEntries c w' = callerEntries c w"
  by (simp add: callerEntries_def contextAt_def split: option.splits contextInput.splits)

lemma agentEntries_cong:
  "contextMaps w' = contextMaps w \<Longrightarrow> agentEntries this w' = agentEntries this w"
  by (simp add: agentEntries_def contextAt_def split: option.splits)

text \<open>
  Claim C5. When the options carry a parent operation context, the operation's context is
  the parent's map instance (the same address in the store), and no key bound in it
  before the call changes its value. A key absent from the parent's map gets the value
  the caller's map binds it to; failing that the one of the agent's default map; failing
  that the one of the active trigger context; otherwise it stays absent. The parent's map
  and the agent's default map are maps of the store.
\<close>

theorem createOperationContext_parent_map_authoritative:
  assumes "opt_parentOperationContext options = Some p"
    and "createOperationContext this env options w = (oc, w')"
    and "oc_context p < length (contextMaps w)"
    and "case this_context this of None \<Rightarrow> True | Some a \<Rightarrow> a < length (contextMaps w)"
  shows "oc_context oc = oc_context p \<and>
         (\<forall>k v. map_of (contextAt w (oc_context p)) k = Some v \<longrightarrow>
                map_of (contextAt w' (oc_context oc)) k = Some v) \<and>
         (\<forall>k. map_of (contextAt w (oc_context p)) k = None \<longrightarrow>
              map_of (contextAt w' (oc_context oc)) k =
                orElseOpt (map_of (callerEntries (opt_context options) w) k)
                  (orElseOpt (map_of (agentEntries this w) k)
                     (map_of (triggerEntries env) k)))"
proof -
  define w0 where "w0 = w\<lparr>operationIdsDrawn := Suc (operationIdsDrawn w)\<rparr>"
  obtain w1 where r: "resolveContext this env options w0 = (oc_context oc, w1)"
      and a: "wireAbortController options w1 = (oc_abortController oc, w')"
    using createOperationContext_parts [OF assms(2)] unfolding w0_def by blast
  have m0: "contextMaps w0 = contextMaps w"
    by (simp add: w0_def)
  have w': "w' = w1"
    using a wireAbortController_parent [OF assms(1), of w1] by simp
  have pc: "oc_context p < length (contextMaps w0)"
    using assms(3) m0 by simp
  have ac: "case this_context this of None \<Rightarrow> True | Some a \<Rightarrow> a < length (contextMaps w0)"
    using assms(4) unfolding m0 .
  note rp = resolveContext_parent [OF assms(1) r pc ac]
  have c: "oc_context oc = oc_context p"
    by (rule rp(1))
  have f: "map_of (contextAt w' (oc_context p)) k =
         orElseOpt (map_of (contextAt w (oc_context p)) k)
           (orElseOpt (map_of (callerEntries (opt_context options) w) k)
              (orElseOpt (map_of (agentEntries this w) k) (map_of (triggerEntries env) k)))" for k
    unfolding w' rp(2) contextAt_cong [OF m0] callerEntries_cong [OF m0]
      agentEntries_cong [OF m0]
    by (rule refl)
  show ?thesis
    using c by (simp add: f)
qed

text \<open>
  The scenario of the claim: the parent's map binds \<open>userId\<close> to \<open>u1\<close>, the delegated
  call supplies \<open>userId\<close> \<open>\<mapsto>\<close> \<open>u2\<close>, and the operation sees \<open>u1\<close>.
\<close>

theorem createOperationContext_parent_map_authoritative_witness:
  "opt_parentOperationContext delegatedOptions = Some sampleContext \<and>
   oc_context sampleContext < length (contextMaps factorySampleWorld) \<and>
   map_of (contextAt factorySampleWorld (oc_context sampleContext)) (KStr ''userId'') = Some ''u1'' \<and>
   map_of (callerEntries (opt_context delegatedOptions) factorySampleWorld) (KStr ''userId'')
     = Some ''u2'' \<and>
   map_of (contextAt
       (snd (createOperationContext sampleAgent sampleFactoryEnv delegatedOptions
               factorySampleWorld))
       (oc_context (fst (createOperationContext sampleAgent sampleFactoryEnv delegatedOptions
               factorySampleWorld))))
     (KStr ''userId'') = Some ''u1''"
proof -
  have h1: "opt_parentOperationContext delegatedOptions = Some sampleContext"
    by (simp add: delegatedOptions_def)
  have h2: "createOperationContext sampleAgent sampleFactoryEnv delegatedOptions
              factorySampleWorld =
            (fst (createOperationContext sampleAgent sampleFactoryEnv delegatedOptions
                    factorySampleWorld),
             snd (createOperationContext sampleAgent sampleFactoryEnv delegatedOptions
                    factorySampleWorld))"
    by simp
  have h3: "oc_context sampleContext < length (contextMaps factorySampleWorld)"
    by (simp add: sampleContext_def factorySampleWorld_def)
  have h4: "case this_context sampleAgent of None \<Rightarrow> True
            | Some a \<Rightarrow> a < length (contextMaps factorySampleWorld)"
    by (simp add: sampleAgent_def factorySampleWorld_def)
  have u1: "map_of (contextAt factorySampleWorld (oc_context sampleContext)) (KStr ''userId'')
      = Some ''u1''"
    by (simp add: contextAt_def sampleContext_def factorySampleWorld_def)
  have u2: "map_of (callerEntries (opt_context delegatedOptions) factorySampleWorld)
      (KStr ''userId'') = Some ''u2''"
    by (simp add: callerEntries_def delegatedOptions_def)
  show ?thesis
    using createOperationContext_parent_map_authoritative [OF h1 h2 h3 h4] h1 h3 u1 u2
    by blast
qed

lemma cascade_fires:
  assumes e: "e < length cs" "\<not> aborted (cs ! e)"
    and wf: "listenersWithin (length cs) cs"
  shows "aborted (runAborts [(e, r)]
            ((cs @ [freshController])
               [e := ((cs @ [freshController]) ! e)
                  \<lparr>abortListeners := abortListeners ((cs @ [freshController]) ! e) @
                     [CascadeAbort (length cs)]\<rparr>]) ! length cs) \<and>
         reason (runAborts [(e, r)]
            ((cs @ [freshController])
               [e := ((cs @ [freshController]) ! e)
                  \<lparr>abortListeners := abortListeners ((cs @ [freshController]) ! e) @
                     [CascadeAbort (length cs)]\<rparr>]) ! length cs) = Some r"
proof -
  define c where "c = length cs"
  define L where "L = abortListeners (cs ! e)"
  define cs1 where "cs1 = (cs @ [freshController])
               [e := (cs ! e)\<lparr>abortListeners := L @ [CascadeAbort c]\<rparr>]"
  define cs2 where "cs2 = cs1[e := (cs1 ! e)\<lparr>aborted := True, reason := Some r\<rparr>]"
  define W where "W = map (\<lambda>l. case l of CascadeAbort t \<Rightarrow> (t, r)) L"
  have ec: "e \<noteq> c" "e < length cs1" "c < length cs1"
    using e(1) by (simp_all add: c_def cs1_def)
  have old: "(cs @ [freshController]) ! e = cs ! e"
    using e(1) by (simp add: nth_append)
  have e1: "cs1 ! e = (cs ! e)\<lparr>abortListeners := L @ [CascadeAbort c]\<rparr>"
    using e(1) by (simp add: cs1_def)
  have step: "runAborts [(e, r)] cs1 = runAborts (W @ [(c, r)]) cs2"
    using ec(2) e(2) by (simp add: e1 cs2_def W_def)
  have Lw: "\<forall>l\<in>set L. case l of CascadeAbort t \<Rightarrow> t < c"
    using wf e(1) unfolding listenersWithin_def L_def c_def by (meson nth_mem)
  have Wc: "\<forall>p\<in>set W. fst p \<noteq> c"
    using Lw by (auto simp: W_def split: abortListener.splits)
  have c2: "cs2 ! c = freshController"
    using ec by (simp add: cs2_def cs1_def c_def nth_append)
  have others: "cs2 ! i = cs ! i" if "i < length cs" "i \<noteq> e" for i
    using that by (simp add: cs2_def cs1_def nth_append)
  have e2: "aborted (cs2 ! e)"
    using ec(2) by (simp add: cs2_def)
  have len2: "length cs2 = Suc (length cs)"
    by (simp add: cs2_def cs1_def)
  have ready: "cascadeReady c cs2"
    unfolding cascadeReady_def
  proof (intro conjI allI impI ballI)
    show "c < length cs2"
      by (simp add: len2 c_def)
    show "\<not> aborted (cs2 ! c)" "abortListeners (cs2 ! c) = []"
      by (simp_all add: c2 freshController_def)
    fix i l
    assume i: "i < length cs2" "\<not> aborted (cs2 ! i)" "l \<in> set (abortListeners (cs2 ! i))"
    show "case l of CascadeAbort t \<Rightarrow> t \<noteq> c"
    proof (cases "i = c")
      case True
      then show ?thesis
        using i(3) by (simp add: c2 freshController_def)
    next
      case False
      then have il: "i < length cs" "i \<noteq> e"
        using i(1,2) e2 by (auto simp: len2 c_def)
      then have "l \<in> set (abortListeners (cs ! i))"
        using i(3) others by simp
      then have "case l of CascadeAbort t \<Rightarrow> t < c"
        using wf il(1) unfolding listenersWithin_def c_def by (meson nth_mem)
      then show ?thesis
        by (cases l) simp
    qed
  qed
  have last: "aborted (runAborts (W @ [(c, r)]) cs2 ! c) \<and>
        reason (runAborts (W @ [(c, r)]) cs2 ! c) = Some r"
    by (rule runAborts_reaches_last [OF refl Wc ready])
  have first: "aborted (runAborts [(e, r)] cs1 ! c) \<and>
        reason (runAborts [(e, r)] cs1 ! c) = Some r"
    unfolding step by (rule last)
  have big: "(cs @ [freshController])
               [e := ((cs @ [freshController]) ! e)
                  \<lparr>abortListeners := abortListeners ((cs @ [freshController]) ! e) @
                     [CascadeAbort c]\<rparr>] = cs1"
    unfolding cs1_def old L_def by (rule refl)
  show ?thesis
    unfolding c_def [symmetric] big by (rule first)
qed

text \<open>
  Claim C7. With a parent operation context the operation's abort controller is the
  parent's controller and the factory touches no controller and registers no listener.
  Without one the controller is new and not aborted, and aborting it changes that
  controller alone (nothing flows back to the external signal). When an external signal
  was supplied, its firing with a reason leaves the new controller aborted with that same
  reason. The listeners present before the call refer to controllers of the store, and
  so does the external signal.
\<close>

theorem createOperationContext_abort_wiring:
  assumes res: "createOperationContext this env options w = (oc, w')"
    and wf: "listenersWithin (length (abortControllers w)) (abortControllers w)"
    and ext: "case opt_abortSignal options of
                None \<Rightarrow> True | Some e \<Rightarrow> e < length (abortControllers w)"
  shows "case opt_parentOperationContext options of
           Some p \<Rightarrow>
             oc_abortController oc = oc_abortController p \<and>
             abortControllers w' = abortControllers w
         | None \<Rightarrow>
             oc_abortController oc = length (abortControllers w) \<and>
             length (abortControllers w') = Suc (length (abortControllers w)) \<and>
             \<not> aborted (abortControllers w' ! oc_abortController oc) \<and>
             (\<forall>x. abortControllers (abort (oc_abortController oc) x w') =
                    (abortControllers w')[oc_abortController oc :=
                       \<lparr>aborted = True, reason = Some x, abortListeners = []\<rparr>]) \<and>
             (case opt_abortSignal options of
                None \<Rightarrow> abortControllers w' = abortControllers w @ [freshController]
              | Some e \<Rightarrow>
                  \<not> aborted (abortControllers w ! e) \<longrightarrow>
                  (\<forall>r. aborted (abortControllers (abort e r w') ! oc_abortController oc) \<and>
                        reason (abortControllers (abort e r w') ! oc_abortController oc)
                          = Some r))"
proof -
  define w0 where "w0 = w\<lparr>operationIdsDrawn := Suc (operationIdsDrawn w)\<rparr>"
  obtain w1 where r: "resolveContext this env options w0 = (oc_context oc, w1)"
      and a: "wireAbortController options w1 = (oc_abortController oc, w')"
    using createOperationContext_parts [OF res] unfolding w0_def by blast
  have c1: "abortControllers w1 = abortControllers w"
    using controllers_resolveContext [OF r] by (simp add: w0_def)
  define cs where "cs = abortControllers w"
  show ?thesis
  proof (cases "opt_parentOperationContext options")
    case (Some p)
    then show ?thesis
      using a wireAbortController_parent [OF Some, of w1] c1 by simp
  next
    case None
    note np = wireAbortController_no_parent [OF None, of w1, unfolded a c1 cs_def [symmetric]]
    have c: "oc_abortController oc = length cs"
      using np by simp
    show ?thesis
    proof (cases "opt_abortSignal options")
      case noext: None
      have cs': "abortControllers w' = cs @ [freshController]"
        using np noext by simp
      have ab: "abortControllers (abort (length cs) x w') =
          (abortControllers w')[length cs :=
             \<lparr>aborted = True, reason = Some x, abortListeners = []\<rparr>]" for x
        unfolding abort_def cs' by (simp add: freshController_def)
      show ?thesis
        using None noext c cs' ab
        by (simp add: cs_def [symmetric] freshController_def)
    next
      case (Some e)
      then have e: "e < length cs"
        using ext by (simp add: cs_def)
      have cs': "abortControllers w' =
          (cs @ [freshController])
               [e := ((cs @ [freshController]) ! e)
                  \<lparr>abortListeners := abortListeners ((cs @ [freshController]) ! e) @
                     [CascadeAbort (length cs)]\<rparr>]"
        using np Some e c1 by (simp add: addEventListener_def cs_def)
      have new: "abortControllers w' ! length cs = freshController"
        unfolding cs' using e by simp
      have len: "length (abortControllers w') = Suc (length cs)"
        unfolding cs' by simp
      have ab: "abortControllers (abort (length cs) x w') =
          (abortControllers w')[length cs :=
             \<lparr>aborted = True, reason = Some x, abortListeners = []\<rparr>]" for x
        unfolding abort_def using new len by (simp add: freshController_def)
      have fire: "aborted (abortControllers (abort e r w') ! length cs) \<and>
          reason (abortControllers (abort e r w') ! length cs) = Some r"
        if "\<not> aborted (cs ! e)" for r
        unfolding abort_def using cascade_fires [OF e that wf [unfolded cs_def [symmetric]], of r]
        by (simp add: cs')
      show ?thesis
        using None Some c len new ab fire
        by (simp add: cs_def [symmetric] freshController_def)
    qed
  qed
qed

theorem createOperationContext_abort_wiring_witness:
  "listenersWithin (length (abortControllers factorySampleWorld))
     (abortControllers factorySampleWorld) \<and>
   opt_parentOperationContext rootOptions = None \<and>
   opt_abortSignal rootOptions = Some 0 \<and>
   \<not> aborted (abortControllers factorySampleWorld ! 0) \<and>
   oc_abortController (fst (createOperationContext sampleAgent sampleFactoryEnv rootOptions
      factorySampleWorld)) = 1 \<and>
   reason (abortControllers (abort 0 ''timeout''
      (snd (createOperationContext sampleAgent sampleFactoryEnv rootOptions
              factorySampleWorld))) !
      oc_abortController (fst (createOperationContext sampleAgent sampleFactoryEnv rootOptions
              factorySampleWorld))) = Some ''timeout''"
proof -
  have h1: "createOperationContext sampleAgent sampleFactoryEnv rootOptions factorySampleWorld =
            (fst (createOperationContext sampleAgent sampleFactoryEnv rootOptions
                    factorySampleWorld),
             snd (createOperationContext sampleAgent sampleFactoryEnv rootOptions
                    factorySampleWorld))"
    by simp
  have h2: "listenersWithin (length (abortControllers factorySampleWorld))
     (abortControllers factorySampleWorld)"
    by (simp add: listenersWithin_def factorySampleWorld_def)
  have h3: "case opt_abortSignal rootOptions of
                None \<Rightarrow> True | Some e \<Rightarrow> e < length (abortControllers factorySampleWorld)"
    by (simp add: rootOptions_def factorySampleWorld_def)
  have p: "opt_parentOperationContext rootOptions = None" "opt_abortSignal rootOptions = Some 0"
    by (simp_all add: rootOptions_def)
  have e: "\<not> aborted (abortControllers factorySampleWorld ! 0)"
    "length (abortControllers factorySampleWorld) = 1"
    by (simp_all add: factorySampleWorld_def)
  note t = createOperationContext_abort_wiring [OF h1 h2 h3, unfolded p option.case]
  have c: "oc_abortController (fst (createOperationContext sampleAgent sampleFactoryEnv
      rootOptions factorySampleWorld)) = 1"
    using t e(2) by simp
  have "reason (abortControllers (abort 0 ''timeout''
      (snd (createOperationContext sampleAgent sampleFactoryEnv rootOptions
              factorySampleWorld))) !
      oc_abortController (fst (createOperationContext sampleAgent sampleFactoryEnv rootOptions
              factorySampleWorld))) = Some ''timeout''"
    using t e(1) by blast
  then show ?thesis
    using h2 e(1) p c by blast
qed


subsection \<open>Merged hooks\<close>

text \<open>
  Claim C8, as stated, fails: the merged hook awaits the call-level hook first, so when
  that hook throws (as a call-level \<^verbatim>\<open>onToolStart\<close> does to deny a tool) the exception
  leaves the merged hook and the agent-level hook of the same name is not invoked.
\<close>

theorem merged_hook_invokes_both_counterexample:
  "lifecycle denyingHooks OnToolStart \<noteq> None \<and> lifecycle agentLevelHooks OnToolStart \<noteq> None \<and>
   the (lifecycle (getMergedHooks agentLevelHooks (Some denyingHooks)) OnToolStart) () [] =
     (Inl ''ToolDeniedError'', [''call''])"
  by (simp add: getMergedHooks_def callBoth_def callOptional_def denyingHooks_def
      agentLevelHooks_def throwing_def noting_def)

text \<open>
  Claim C8, amended. For every lifecycle hook name for which both an agent-level and a
  call-level hook are supplied, the merged hook runs the call-level hook first and, when
  that returns normally, the agent-level hook on the state it left; when the call-level
  hook throws, its exception is the outcome and the agent-level hook does not run. For
  \<^verbatim>\<open>onPrepareMessages\<close> and \<^verbatim>\<open>onPrepareModelMessages\<close> a supplied call-level hook is
  itself the merged hook, so the agent-level one is not invoked.
\<close>

theorem getMergedHooks_call_level_first:
  "(\<forall>name c a. lifecycle optionsHooks name = Some c \<and> lifecycle thisHooks name = Some a \<longrightarrow>
      (\<exists>m. lifecycle (getMergedHooks thisHooks (Some optionsHooks)) name = Some m \<and>
           (\<forall>args s. m args s =
              (case c args s of
                 (Inl e, s1) \<Rightarrow> (Inl e, s1)
               | (Inr u, s1) \<Rightarrow> a args s1)))) \<and>
   (\<forall>name c. prepare optionsHooks name = Some c \<longrightarrow>
      prepare (getMergedHooks thisHooks (Some optionsHooks)) name = Some c)"
proof (intro conjI allI impI)
  fix name c a
  assume h: "lifecycle optionsHooks name = Some c \<and> lifecycle thisHooks name = Some a"
  have m: "lifecycle (getMergedHooks thisHooks (Some optionsHooks)) name =
      Some (callBoth (lifecycle optionsHooks name) (lifecycle thisHooks name))"
    by (cases name) (simp_all add: getMergedHooks_def)
  have "callBoth (Some c) (Some a) args s =
      (case c args s of (Inl e, s1) \<Rightarrow> (Inl e, s1) | (Inr u, s1) \<Rightarrow> a args s1)" for args s
    by (simp add: callBoth_def callOptional_def split: prod.splits sum.splits)
  then show "\<exists>m. lifecycle (getMergedHooks thisHooks (Some optionsHooks)) name = Some m \<and>
           (\<forall>args s. m args s =
              (case c args s of
                 (Inl e, s1) \<Rightarrow> (Inl e, s1)
               | (Inr u, s1) \<Rightarrow> a args s1))"
    using m h by simp
next
  fix name c
  assume "prepare optionsHooks name = Some c"
  then show "prepare (getMergedHooks thisHooks (Some optionsHooks)) name = Some c"
    by (cases name) (simp_all add: getMergedHooks_def firstDefined_def)
qed

theorem getMergedHooks_call_level_first_witness:
  "lifecycle callLevelHooks OnEnd = Some (noting ''call'') \<and>
   lifecycle agentLevelHooks OnEnd = Some (noting ''agent'') \<and>
   the (lifecycle (getMergedHooks agentLevelHooks (Some callLevelHooks)) OnEnd) () [] =
     (Inr (), [''call'', ''agent'']) \<and>
   prepare callLevelHooks OnPrepareMessages = Some (preparing ''call'') \<and>
   the (prepare (getMergedHooks agentLevelHooks (Some callLevelHooks)) OnPrepareMessages) () [] =
     (Inr (), [''call''])"
proof -
  have c: "lifecycle callLevelHooks OnEnd = Some (noting ''call'')"
    and a: "lifecycle agentLevelHooks OnEnd = Some (noting ''agent'')"
    and p: "prepare callLevelHooks OnPrepareMessages = Some (preparing ''call'')"
    by (simp_all add: callLevelHooks_def agentLevelHooks_def)
  note t = getMergedHooks_call_level_first [of callLevelHooks agentLevelHooks]
  obtain m where m: "lifecycle (getMergedHooks agentLevelHooks (Some callLevelHooks)) OnEnd = Some m"
      "\<forall>args s. m args s =
              (case noting ''call'' args s of
                 (Inl e, s1) \<Rightarrow> (Inl e, s1)
               | (Inr u, s1) \<Rightarrow> noting ''agent'' args s1)"
    using t c a by blast
  have 1: "the (lifecycle (getMergedHooks agentLevelHooks (Some callLevelHooks)) OnEnd) () [] =
     (Inr (), [''call'', ''agent''])"
    using m by (simp add: noting_def)
  have "prepare (getMergedHooks agentLevelHooks (Some callLevelHooks)) OnPrepareMessages =
      Some (preparing ''call'')"
    using t p by blast
  then have 2: "the (prepare (getMergedHooks agentLevelHooks (Some callLevelHooks))
      OnPrepareMessages) () [] = (Inr (), [''call''])"
    by (simp add: preparing_def)
  show ?thesis
    using c a p 1 2 by blast
qed

subsection \<open>Sanitisation of error values\<close>

lemma sublist_joinWith: "x \<in> set xs \<Longrightarrow> sublist x (joinWith sep xs)"
proof (induction sep xs rule: joinWith.induct)
  case (1 sep)
  then show ?case by simp
next
  case (2 sep y)
  then show ?case by simp
next
  case (3 sep y z zs)
  show ?case
  proof (cases "x = y")
    case True
    then show ?thesis by simp
  next
    case False
    then have "sublist x (joinWith sep (z # zs))"
      using 3 by simp
    then obtain ps ss where "joinWith sep (z # zs) = ps @ x @ ss"
      by (auto simp: sublist_def)
    then have "joinWith sep (y # z # zs) = (y @ sep @ ps) @ x @ ss"
      by simp
    then show ?thesis
      unfolding sublist_def by blast
  qed
qed

lemma marker_in_quote: "sublist ''[Circular]'' (quoteJson ''[Circular]'')"
proof -
  have "quoteJson ''[Circular]'' = [CHR 0x22] @ ''[Circular]'' @ [CHR 0x22]"
    by (simp add: quoteJson_def escapeChar_def)
  then show ?thesis
    by (metis sublist_appendI)
qed

lemma children_valid: "c \<in> set (children h a) \<Longrightarrow> a < length h"
  by (auto simp: children_def objAt_def split: if_splits)

lemma stringify_child:
  assumes c: "c \<in> set (children h a)" and a: "a \<notin> set seen"
    and s1: "stringify h (a # seen) (VRef c) = Some s1" "sublist m s1"
  shows "\<exists>s. stringify h seen (VRef a) = Some s \<and> sublist m s"
proof -
  have av: "\<not> length h \<le> a"
    using children_valid [OF c] by simp
  consider props where "h ! a = OPlain props" "VRef c \<in> snd ` set props"
    | items where "h ! a = OArray items" "VRef c \<in> set items"
    using c av
    by (auto simp: children_def objAt_def refsOf_def split: obj.splits val.splits)
  then show ?thesis
  proof cases
    case 1
    then obtain k where kv: "(k, VRef c) \<in> set props"
      by auto
    let ?parts = "concat (map (\<lambda>kv. case stringify h (a # seen) (snd kv) of
                                      None \<Rightarrow> []
                                    | Some s \<Rightarrow> [quoteJson (fst kv) @ '':'' @ s]) props)"
    have "quoteJson k @ '':'' @ s1 \<in> set ?parts"
      using kv s1(1) by force
    then have "sublist (quoteJson k @ '':'' @ s1) (joinWith '','' ?parts)"
      by (rule sublist_joinWith)
    moreover have "sublist s1 (quoteJson k @ '':'' @ s1)"
      by (metis append_assoc sublist_append_leftI)
    ultimately have "sublist m (joinWith '','' ?parts)"
      using s1(2) sublist_order.order_trans by blast
    then have "sublist m (''{'' @ joinWith '','' ?parts @ ''}'')"
      by (meson sublist_appendI sublist_order.order_trans)
    then show ?thesis
      using av a 1(1) by simp
  next
    case 2
    let ?parts = "map (\<lambda>x. case stringify h (a # seen) x of None \<Rightarrow> ''null'' | Some s \<Rightarrow> s)
                  items"
    have "s1 \<in> set ?parts"
      using 2(2) s1(1) by force
    then have "sublist s1 (joinWith '','' ?parts)"
      by (rule sublist_joinWith)
    then have "sublist m (joinWith '','' ?parts)"
      using s1(2) sublist_order.order_trans by blast
    then have "sublist m (''['' @ joinWith '','' ?parts @ '']'')"
      by (meson sublist_appendI sublist_order.order_trans)
    then show ?thesis
      using av a 2(1) by simp
  qed
qed

lemma stringify_marks_cycle:
  assumes "reaches h a b" "b \<in> set seen" "\<forall>s\<in>set seen. s < length h"
  shows "\<exists>s. stringify h seen (VRef a) = Some s \<and> sublist ''[Circular]'' s"
  using assms
proof (induction arbitrary: seen rule: reaches.induct)
  case (here a)
  then have "\<not> length h \<le> a" by auto
  then show ?case
    using here(1) marker_in_quote by simp
next
  case (step c a b)
  have av: "a < length h"
    using step.hyps(1) by (rule children_valid)
  show ?case
  proof (cases "a \<in> set seen")
    case True
    moreover have "\<not> length h \<le> a"
      using av by simp
    ultimately show ?thesis
      using marker_in_quote by simp
  next
    case False
    have seen': "b \<in> set (a # seen)" "\<forall>s\<in>set (a # seen). s < length h"
      using step.prems av by simp_all
    obtain s1 where s1: "stringify h (a # seen) (VRef c) = Some s1" "sublist ''[Circular]'' s1"
      using step.IH [OF seen'] by blast
    show ?thesis
      by (rule stringify_child [OF step.hyps(1) False s1])
  qed
qed

text \<open>
  Claim C9, as stated, fails. An \<^verbatim>\<open>Error\<close> whose own property \<^verbatim>\<open>self\<close> is the error
  itself is returned as the object of its name, message and stack: not a string, and
  without the marker. An array that holds a plain object referring to itself is returned
  as an array, whose item is the text of the object: the marker is in the item, but the
  value returned is not a string.
\<close>

theorem sanitizeErrorValue_circular_counterexample:
  "sanitizeErrorValue specEnv 8 circularErrorHeap (VRef 0) =
     Inr (JObj [(''name'', JStr ''Error''), (''message'', JStr ''boom''),
                (''stack'', JStr ''Error: boom'')]) \<and>
   sanitizeErrorValue specEnv 8 arrayOfCircularHeap (VRef 0) =
     Inr (JArr [JStr (''{'' @ quoteJson ''self'' @ '':'' @ quoteJson ''[Circular]'' @ ''}'')])"
  by code_simp

text \<open>
  Apart from the claim: an array that contains itself makes the function call itself
  until the stack is exhausted, whatever the stack, against its documentation (circular
  structures are to be handled by stringifying).
\<close>

lemma sanitizeErrorValue_self_containing_array:
  "sanitizeErrorValue env d selfContainingArrayHeap (VRef 0) =
     Inl (RangeError ''Maximum call stack size exceeded'')"
  by (induction d) (simp_all add: selfContainingArrayHeap_def objAt_def)

text \<open>
  Claim C9, amended. For every plain object (not an array, an \<^verbatim>\<open>Error\<close>, a date, a map
  or a set) one of whose fields leads back to the object, directly or through a cycle of
  object fields and array items, \<^verbatim>\<open>sanitizeErrorValue\<close> returns the text that
  \<^verbatim>\<open>safeStringify\<close> gives, a string that contains the marker \<^verbatim>\<open>[Circular]\<close>.
\<close>

theorem sanitizeErrorValue_plain_object_cycle:
  assumes "objAt h r = Some (OPlain props)" "selfReferencing h r" "0 < d"
  shows "\<exists>s. sanitizeErrorValue specEnv d h (VRef r) = Inr (JStr s) \<and> sublist ''[Circular]'' s"
proof -
  obtain d' where d: "d = Suc d'"
    using assms(3) by (cases d) simp_all
  have rv: "r < length h"
    using assms(1) by (simp add: objAt_def split: if_splits)
  obtain c where c: "c \<in> set (children h r)" "reaches h c r"
    using assms(2) by (auto simp: selfReferencing_def)
  obtain s1 where s1: "stringify h [r] (VRef c) = Some s1" "sublist ''[Circular]'' s1"
    using stringify_marks_cycle [OF c(2), of "[r]"] rv by auto
  have "r \<notin> set []"
    by simp
  then obtain s where s: "stringify h [] (VRef r) = Some s" "sublist ''[Circular]'' s"
    using stringify_child [OF c(1)] s1 by blast
  have "sanitizeErrorValue specEnv d h (VRef r) = Inr (JStr s)"
    unfolding d using assms(1) s(1)
    by (simp add: specEnv_def safeStringify_def stringOrUndefined_def)
  then show ?thesis
    using s(2) by blast
qed

theorem sanitizeErrorValue_plain_object_cycle_witness:
  "objAt circularObjectHeap 0 = Some (OPlain [(''self'', VRef 0)]) \<and>
   selfReferencing circularObjectHeap 0 \<and>
   (\<exists>s. sanitizeErrorValue specEnv 1 circularObjectHeap (VRef 0) = Inr (JStr s) \<and>
        sublist ''[Circular]'' s)"
proof -
  have h1: "objAt circularObjectHeap 0 = Some (OPlain [(''self'', VRef 0)])"
    by (simp add: circularObjectHeap_def objAt_def)
  have "0 \<in> set (children circularObjectHeap 0)"
    by (simp add: children_def circularObjectHeap_def objAt_def refsOf_def)
  then have h2: "selfReferencing circularObjectHeap 0"
    unfolding selfReferencing_def using reaches.here by blast
  have h3: "(0::nat) < 1"
    by simp
  show ?thesis
    using sanitizeErrorValue_plain_object_cycle [OF h1 h2 h3] h1 h2 by blast
qed

subsection \<open>The tool execution wrapper\<close>

lemma copyOwnProperties_keeps:
  assumes "copyOwnProperties env d h props acc = Inr r"
  shows "(\<forall>k. k \<in> skippedKeys \<or> k \<notin> fst ` set props \<longrightarrow> map_of r k = map_of acc k) \<and>
         fst ` set acc \<subseteq> fst ` set r"
  using assms
proof (induction props arbitrary: acc)
  case Nil
  then show ?case by simp
next
  case (Cons p props)
  obtain key v where p: "p = (key, v)" by (cases p)
  show ?case
  proof (cases "key \<in> set [''name'', ''message'', ''stack'', ''cause'', ''error''] \<or>
                v = VUndefined \<or> isFunction h v")
    case True
    then have "copyOwnProperties env d h props acc = Inr r"
      using Cons.prems unfolding p by (auto split: if_splits)
    then have "(\<forall>k. k \<in> skippedKeys \<or> k \<notin> fst ` set props \<longrightarrow> map_of r k = map_of acc k) \<and>
         fst ` set acc \<subseteq> fst ` set r"
      by (rule Cons.IH)
    then show ?thesis
      unfolding p by auto
  next
    case False
    then obtain sv where sv: "sanitizeErrorValue env d h v = Inr sv"
        "copyOwnProperties env d h props (AList.update key sv acc) = Inr r"
      using Cons.prems unfolding p by (auto split: if_splits sum.splits)
    have ih: "(\<forall>k. k \<in> skippedKeys \<or> k \<notin> fst ` set props \<longrightarrow>
                 map_of r k = map_of (AList.update key sv acc) k) \<and>
         fst ` set (AList.update key sv acc) \<subseteq> fst ` set r"
      using sv(2) by (rule Cons.IH)
    have nk: "key \<notin> skippedKeys"
      using False by (simp add: skippedKeys_def)
    have "map_of r k = map_of acc k" if "k \<in> skippedKeys \<or> k \<notin> fst ` set (p # props)" for k
    proof -
      have "k \<noteq> key"
        using that nk unfolding p by auto
      moreover have "k \<in> skippedKeys \<or> k \<notin> fst ` set props"
        using that by auto
      ultimately show ?thesis
        using ih by (auto simp: update_conv')
    qed
    moreover have "fst ` set acc \<subseteq> fst ` set r"
      using ih by (auto simp: dom_update)
    ultimately show ?thesis
      by blast
  qed
qed


lemma buildToolErrorResult_fields:
  assumes "buildToolErrorResult env d h error toolCallId toolName = Inr payload"
  shows "map_of payload ''error'' = Some (JBool True)"
    and "map_of payload ''name'' = Some (JStr (err_name error))"
    and "map_of payload ''message'' = Some (JStr (err_message error))"
    and "map_of payload ''stack'' = Some (stringOrUndefined (err_stack error))"
    and "''toolCallId'' \<in> fst ` set payload" and "''toolName'' \<in> fst ` set payload"
    and "''toolCallId'' \<notin> fst ` set (err_ownProperties error) \<Longrightarrow>
         map_of payload ''toolCallId'' = Some (JStr toolCallId)"
    and "''toolName'' \<notin> fst ` set (err_ownProperties error) \<Longrightarrow>
         map_of payload ''toolName'' = Some (JStr toolName)"
proof -
  define base where "base =
            [(''error'', JBool True),
             (''name'', JStr (err_name error)),
             (''message'', JStr (err_message error)),
             (''stack'', stringOrUndefined (err_stack error)),
             (''toolCallId'', JStr toolCallId),
             (''toolName'', JStr toolName)]"
  obtain r0 where r0: "copyOwnProperties env d h (err_ownProperties error) r0 = Inr payload"
      and c: "r0 = base \<or> (\<exists>x. r0 = AList.update ''cause'' x base)"
    using assms unfolding buildToolErrorResult_def Let_def base_def [symmetric]
    by (auto split: if_splits option.splits sum.splits)
  have m: "map_of r0 k = map_of base k" if "k \<noteq> ''cause''" for k
    using c that by (auto simp: update_conv')
  have d: "fst ` set base \<subseteq> fst ` set r0"
    using c by (force simp: dom_update)
  note keep = copyOwnProperties_keeps [OF r0]
  show "map_of payload ''error'' = Some (JBool True)"
    using keep m [of "''error''"] by (simp add: skippedKeys_def base_def)
  show "map_of payload ''name'' = Some (JStr (err_name error))"
    using keep m [of "''name''"] by (simp add: skippedKeys_def base_def)
  show "map_of payload ''message'' = Some (JStr (err_message error))"
    using keep m [of "''message''"] by (simp add: skippedKeys_def base_def)
  show "map_of payload ''stack'' = Some (stringOrUndefined (err_stack error))"
    using keep m [of "''stack''"] by (simp add: skippedKeys_def base_def)
  have "''toolCallId'' \<in> fst ` set base" "''toolName'' \<in> fst ` set base"
    by (simp_all add: base_def)
  then show "''toolCallId'' \<in> fst ` set payload" "''toolName'' \<in> fst ` set payload"
    using keep d by blast+
  show "map_of payload ''toolCallId'' = Some (JStr toolCallId)"
    if "''toolCallId'' \<notin> fst ` set (err_ownProperties error)"
    using keep that m [of "''toolCallId''"] by (simp add: base_def)
  show "map_of payload ''toolName'' = Some (JStr toolName)"
    if "''toolName'' \<notin> fst ` set (err_ownProperties error)"
    using keep that m [of "''toolName''"] by (simp add: base_def)
qed

lemma catchBlock_returns:
  assumes b: "buildToolErrorResult (te_errorEnv env) (te_stackLeft env) h (toError env h e)
                toolCallId (tool_name tool) = Inr payload"
    and k: "case onToolEnd hooks of
              None \<Rightarrow> True
            | Some hook \<Rightarrow> fst (hook None (Some (toError env h e)) (tw_state w)) = Inr ()"
  shows "fst (catchBlock env h tool hooks toolCallId e w) = Inr (ErrorResult payload)"
proof (cases "onToolEnd hooks")
  case None
  then show ?thesis
    by (simp add: catchBlock_def Let_def b)
next
  case (Some hook)
  then have "fst (hook None (Some (toError env h e)) (tw_state w)) = Inr ()"
    using k by simp
  then obtain s where "hook None (Some (toError env h e)) (tw_state w) = (Inr (), s)"
    by (cases "hook None (Some (toError env h e)) (tw_state w)") simp
  then show ?thesis
    using Some by (simp add: catchBlock_def Let_def b callUser_def emit_def)
qed

lemma tryBlock_execute_throws:
  assumes "onToolStart hooks = None" "tool_execute tool = Some execute"
    "execute args (tw_state w) = (Inl e, s)"
  shows "tryBlock env h tool hooks args w = (Inl e, w\<lparr>tw_state := s\<rparr>)"
  using assms by (simp add: tryBlock_def callUser_def)

lemma collect_map_returns:
  "\<forall>x\<in>set xs. \<exists>y. f x = Inr y \<Longrightarrow> \<exists>ys. collect (map f xs) = Inr ys"
proof (induction xs)
  case Nil
  then show ?case by simp
next
  case (Cons x xs)
  then obtain y ys where "f x = Inr y" "collect (map f xs) = Inr ys"
    by auto
  then show ?case by simp
qed

lemma sanitizeErrorValue_returns:
  assumes safe: "\<forall>v. \<exists>text. ee_safeStringify env h v = Inr text"
  shows "nestsWithin d h v \<Longrightarrow> \<exists>j. sanitizeErrorValue env d h v = Inr j"
proof (induction d arbitrary: v)
  case 0
  then show ?case by simp
next
  case (Suc d)
  show ?case
  proof (cases v)
    case (VRef a)
    show ?thesis
    proof (cases "objAt h a")
      case None
      then show ?thesis
        unfolding VRef by simp
    next
      case (Some ob)
      obtain str where str: "ee_safeStringify env h (VRef a) = Inr str"
        using safe by blast
      show ?thesis
      proof (cases ob)
        case (OArray items)
        then have "list_all (nestsWithin d h) items"
          using Suc.prems Some unfolding VRef by simp
        then have "\<forall>x\<in>set items. \<exists>y. sanitizeErrorValue env d h x = Inr y"
          using Suc.IH by (simp add: list_all_iff)
        then obtain ys where "collect (map (sanitizeErrorValue env d h) items) = Inr ys"
          using collect_map_returns by blast
        then show ?thesis
          unfolding VRef using Some OArray by simp
      next
        case (ODate t)
        then obtain iso8601 where "t = Some iso8601"
          using Suc.prems Some unfolding VRef by auto
        then show ?thesis
          unfolding VRef using Some ODate by simp
      next
        case (OPlain props)
        then show ?thesis
          unfolding VRef using Some str by simp
      next
        case (OError e)
        then show ?thesis
          unfolding VRef using Some by simp
      next
        case OMap
        then show ?thesis
          unfolding VRef using Some str by simp
      next
        case OSet
        then show ?thesis
          unfolding VRef using Some str by simp
      next
        case OFunction
        then show ?thesis
          unfolding VRef using Some str by simp
      qed
    qed
  qed simp_all
qed

lemma copyOwnProperties_returns:
  assumes safe: "\<forall>v. \<exists>text. ee_safeStringify env h v = Inr text"
  shows "\<forall>kv\<in>set props. fst kv \<notin> skippedKeys \<and> snd kv \<noteq> VUndefined \<and> \<not> isFunction h (snd kv)
           \<longrightarrow> nestsWithin d h (snd kv) \<Longrightarrow>
         \<exists>r. copyOwnProperties env d h props acc = Inr r"
proof (induction props arbitrary: acc)
  case Nil
  then show ?case by simp
next
  case (Cons p props)
  obtain key v where p: "p = (key, v)" by (cases p)
  have rest: "\<exists>r. copyOwnProperties env d h props acc' = Inr r" for acc'
    using Cons.IH Cons.prems by simp
  show ?case
  proof (cases "key \<in> skippedKeys \<or> v = VUndefined \<or> isFunction h v")
    case True
    then show ?thesis
      unfolding p using rest [of acc] by (auto simp: skippedKeys_def)
  next
    case False
    then have "nestsWithin d h v"
      using Cons.prems unfolding p by simp
    then obtain j where "sanitizeErrorValue env d h v = Inr j"
      using sanitizeErrorValue_returns [OF safe] by blast
    then show ?thesis
      unfolding p using False rest [of "AList.update key j acc"] by (auto simp: skippedKeys_def)
  qed
qed

lemma buildToolErrorResult_returns:
  assumes safe: "\<forall>v. \<exists>text. ee_safeStringify env h v = Inr text"
    and nests: "\<forall>v\<in>set (sanitizedValues h error). nestsWithin d h v"
  shows "\<exists>payload. buildToolErrorResult env d h error toolCallId toolName = Inr payload"
proof -
  have props: "\<forall>kv\<in>set (err_ownProperties error).
      fst kv \<notin> skippedKeys \<and> snd kv \<noteq> VUndefined \<and> \<not> isFunction h (snd kv) \<longrightarrow>
      nestsWithin d h (snd kv)"
    using nests by (auto simp: sanitizedValues_def)
  note copy = copyOwnProperties_returns [OF safe props]
  show ?thesis
  proof (cases "err_cause error \<noteq> VUndefined \<and> asError h (err_cause error) = None")
    case True
    then have "nestsWithin d h (err_cause error)"
      using nests by (simp add: sanitizedValues_def)
    then obtain j where "sanitizeErrorValue env d h (err_cause error) = Inr j"
      using sanitizeErrorValue_returns [OF safe] by blast
    then show ?thesis
      using True copy by (simp add: buildToolErrorResult_def Let_def)
  next
    case False
    then show ?thesis
      using copy by (auto simp: buildToolErrorResult_def Let_def)
  qed
qed

text \<open>
  Claim C2, amended. Let the \<^verbatim>\<open>try\<close> block of the wrapped function throw (from the
  \<^verbatim>\<open>onToolStart\<close> hook, from \<^verbatim>\<open>execute\<close>, from the validation of the output, or from the
  \<^verbatim>\<open>onToolEnd\<close> hook of the success path). Let the values that the payload takes from
  the thrown error, its cause and its own properties, be trees of arrays that nest less
  deep than the stack admits, with no invalid date; let \<^verbatim>\<open>safeStringify\<close> return normally;
  and let the \<^verbatim>\<open>onToolEnd\<close> hook, if any, return normally when called with the error.
  Then the wrapped function returns a payload that binds \<^verbatim>\<open>error\<close> to \<^verbatim>\<open>true\<close>, and
  \<^verbatim>\<open>name\<close>, \<^verbatim>\<open>message\<close> and \<^verbatim>\<open>stack\<close> to those of the error, and has the keys
  \<^verbatim>\<open>toolCallId\<close> and \<^verbatim>\<open>toolName\<close>; these are bound to the identifiers of the call when the
  error has no own property of that name.
\<close>

theorem toolExecution_returns_error_payload:
  assumes t: "tryBlock env h tool hooks args
                (openToolSpan (tool_name tool) (effectiveToolCallId env oid) w0) = (Inl e, w)"
    and n: "\<forall>v\<in>set (sanitizedValues h (toError env h e)). nestsWithin (te_stackLeft env) h v"
    and s: "\<forall>v. \<exists>text. ee_safeStringify (te_errorEnv env) h v = Inr text"
    and k: "case onToolEnd hooks of
              None \<Rightarrow> True
            | Some hook \<Rightarrow> fst (hook None (Some (toError env h e)) (tw_state w)) = Inr ()"
  shows "\<exists>payload.
         fst (toolExecution env h hooks tool args oid w0) = Inr (ErrorResult payload) \<and>
         map_of payload ''error'' = Some (JBool True) \<and>
         map_of payload ''name'' = Some (JStr (err_name (toError env h e))) \<and>
         map_of payload ''message'' = Some (JStr (err_message (toError env h e))) \<and>
         map_of payload ''stack'' = Some (stringOrUndefined (err_stack (toError env h e))) \<and>
         ''toolCallId'' \<in> fst ` set payload \<and> ''toolName'' \<in> fst ` set payload \<and>
         (''toolCallId'' \<notin> fst ` set (err_ownProperties (toError env h e)) \<longrightarrow>
            map_of payload ''toolCallId'' = Some (JStr (effectiveToolCallId env oid))) \<and>
         (''toolName'' \<notin> fst ` set (err_ownProperties (toError env h e)) \<longrightarrow>
            map_of payload ''toolName'' = Some (JStr (tool_name tool)))"
proof -
  obtain payload where b: "buildToolErrorResult (te_errorEnv env) (te_stackLeft env) h
      (toError env h e) (effectiveToolCallId env oid) (tool_name tool) = Inr payload"
    using buildToolErrorResult_returns [OF s n] by blast
  have "fst (toolExecution env h hooks tool args oid w0) =
        fst (catchBlock env h tool hooks (effectiveToolCallId env oid) e w)"
    by (simp add: toolExecution_def Let_def t split_def)
  then have "fst (toolExecution env h hooks tool args oid w0) = Inr (ErrorResult payload)"
    using catchBlock_returns [OF b k] by simp
  then show ?thesis
    using buildToolErrorResult_fields [OF b] by blast
qed

theorem toolExecution_returns_error_payload_witness:
  "tryBlock sampleToolEnv boomHeap failingTool noHooks ()
     (openToolSpan (tool_name failingTool) (effectiveToolCallId sampleToolEnv (Some ''call-1''))
        idleWorld) =
   (Inl (Thrown (VRef 0)),
    (openToolSpan (tool_name failingTool) (effectiveToolCallId sampleToolEnv (Some ''call-1''))
        idleWorld)\<lparr>tw_state := 1\<rparr>) \<and>
   sanitizedValues boomHeap (toError sampleToolEnv boomHeap (Thrown (VRef 0))) =
     [VNum 42, VRef 3] \<and>
   nestsWithin (te_stackLeft sampleToolEnv) boomHeap (VNum 42) \<and>
   nestsWithin (te_stackLeft sampleToolEnv) boomHeap (VRef 3) \<and>
   fst (toolExecution sampleToolEnv boomHeap noHooks failingTool () (Some ''call-1'') idleWorld)
     = Inr (ErrorResult boomPayload) \<and>
   map_of boomPayload ''toolCallId'' = Some (JStr ''call-1'')"
proof -
  let ?w = "openToolSpan (tool_name failingTool)
              (effectiveToolCallId sampleToolEnv (Some ''call-1'')) idleWorld"
  let ?error = "toError sampleToolEnv boomHeap (Thrown (VRef 0))"
  have t: "tryBlock sampleToolEnv boomHeap failingTool noHooks () ?w =
      (Inl (Thrown (VRef 0)), ?w\<lparr>tw_state := 1\<rparr>)"
    by (rule tryBlock_execute_throws
          [where execute = "\<lambda>args s. (Inl (Thrown (VRef 0)), Suc s)"])
      (simp_all add: noHooks_def failingTool_def openToolSpan_def emit_def idleWorld_def)
  have vals: "sanitizedValues boomHeap ?error = [VNum 42, VRef 3]"
    by code_simp
  have nest: "nestsWithin (te_stackLeft sampleToolEnv) boomHeap (VNum 42)"
    "nestsWithin (te_stackLeft sampleToolEnv) boomHeap (VRef 3)"
    by code_simp+
  have n: "\<forall>v\<in>set (sanitizedValues boomHeap ?error).
      nestsWithin (te_stackLeft sampleToolEnv) boomHeap v"
    unfolding vals using nest by simp
  have s: "\<forall>v. \<exists>text. ee_safeStringify (te_errorEnv sampleToolEnv) boomHeap v = Inr text"
    by (simp add: sampleToolEnv_def specEnv_def safeStringify_def)
  have k: "case onToolEnd noHooks of
              None \<Rightarrow> True
            | Some hook \<Rightarrow>
                fst (hook None (Some ?error) (tw_state (?w\<lparr>tw_state := 1\<rparr>))) = Inr ()"
    by (simp add: noHooks_def)
  have own: "''toolCallId'' \<notin> fst ` set (err_ownProperties ?error)"
    by (simp add: toError_def asError_def objAt_def boomHeap_def)
  have id: "effectiveToolCallId sampleToolEnv (Some ''call-1'') = ''call-1''"
    by (simp add: effectiveToolCallId_def)
  have run: "fst (toolExecution sampleToolEnv boomHeap noHooks failingTool () (Some ''call-1'')
                    idleWorld) = Inr (ErrorResult boomPayload)"
    by code_simp
  obtain payload where
    "fst (toolExecution sampleToolEnv boomHeap noHooks failingTool () (Some ''call-1'') idleWorld)
       = Inr (ErrorResult payload)"
    "map_of payload ''toolCallId'' = Some (JStr ''call-1'')"
    using toolExecution_returns_error_payload [OF t n s k] own id by auto
  then have "map_of boomPayload ''toolCallId'' = Some (JStr ''call-1'')"
    using run by simp
  then show ?thesis
    using t vals nest run by simp
qed

text \<open>
  Claim C2, as stated, fails: the \<^verbatim>\<open>catch\<close> block of the wrapper awaits the \<^verbatim>\<open>onToolEnd\<close>
  hook without a guard of its own, as the code does with hooks throughout. When
  \<^verbatim>\<open>execute\<close> throws and the hook, called there with the error, throws too, the hook's
  exception leaves the wrapped function and no payload is returned.
\<close>

theorem toolExecution_never_throws_counterexample:
  "fst (toolExecution sampleToolEnv boomHeap throwingEndHooks failingTool () (Some ''call-1'')
          idleWorld) = Inl (Thrown (VStr ''hook failed''))"
  by code_simp

text \<open>
  Apart from the claim: an error that carries an array containing itself makes
  \<^verbatim>\<open>sanitizeErrorValue\<close> exhaust the stack, against its documentation (circular structures
  are to be handled by stringifying), and the \<^verbatim>\<open>RangeError\<close> leaves the wrapped function.
\<close>

lemma toolExecution_self_containing_array:
  "fst (toolExecution sampleToolEnv boomHeap noHooks loopingTool () (Some ''call-1'') idleWorld)
     = Inl (RangeError ''Maximum call stack size exceeded'')"
  by code_simp




subsection \<open>The streams of \<^verbatim>\<open>streamText\<close>\<close>

lemma wrap_unaborted:
  "\<forall>r\<in>set rs. \<not> abortedBefore r \<and> \<not> abortedAfter r \<Longrightarrow> wrapWithAbortHandling rs = forAwait rs"
  by (induction rs) (auto split: sum.splits iteratorResult.splits prod.splits)

lemma wrap_prefix:
  "prefix (fst (wrapWithAbortHandling rs)) (fst (forAwait rs))"
  by (induction rs) (auto split: sum.splits iteratorResult.splits prod.splits)

text \<open>
  Claim C6, amended. With no output guardrail configured the guardrail pipeline is not
  constructed (it is constructed exactly when there is at least one), and the text
  stream handed to the caller is the model's own text stream. For an agent without
  sub-agents the UI stream is the model's own UI stream, and the full stream is the
  model's full stream behind \<^verbatim>\<open>wrapWithAbortHandling\<close>: it delivers parts of the model's
  stream one for one, in order, and is the model's stream, part for part and in how it
  ends, whenever no read finds the operation aborted.
\<close>

theorem streamText_without_guardrails_bypasses_pipeline:
  "guardrailPipelineOf env [] result = None \<and>
   (guardrailPipelineOf env output result \<noteq> None \<longleftrightarrow> output \<noteq> []) \<and>
   rc_textStream (resultStreams env [] result) = sdk_textStream result \<and>
   (\<not> hasSubAgents env \<longrightarrow>
      rc_toUIMessageStream (resultStreams env [] result) streamOptions =
        sdk_toUIMessageStream result streamOptions \<and>
      rc_fullStream (resultStreams env [] result) = wrapWithAbortHandling (sdk_fullStream result) \<and>
      prefix (fst (rc_fullStream (resultStreams env [] result)))
        (fst (forAwait (sdk_fullStream result))) \<and>
      ((\<forall>r\<in>set (sdk_fullStream result). \<not> abortedBefore r \<and> \<not> abortedAfter r) \<longrightarrow>
         rc_fullStream (resultStreams env [] result) = forAwait (sdk_fullStream result)))"
proof -
  have none: "guardrailPipelineOf env [] result = None"
    by (simp add: guardrailPipelineOf_def guardrailStreamingEnabled_def)
  have built: "guardrailPipelineOf env output result \<noteq> None \<longleftrightarrow> output \<noteq> []"
    by (simp add: guardrailPipelineOf_def guardrailStreamingEnabled_def)
  have ts: "rc_textStream (resultStreams env [] result) = sdk_textStream result"
    by (simp add: resultStreams_def none getGuardrailAwareTextStream_def)
  have ui: "rc_toUIMessageStream (resultStreams env [] result) streamOptions =
        sdk_toUIMessageStream result streamOptions" if "\<not> hasSubAgents env"
    using that
    by (simp add: resultStreams_def none toUIMessageStreamSanitized_def
        getGuardrailAwareUIStream_def)
  have full: "rc_fullStream (resultStreams env [] result) =
      wrapWithAbortHandling (sdk_fullStream result)" if "\<not> hasSubAgents env"
    using that
    by (simp add: resultStreams_def none getGuardrailAwareFullStream_def createBaseFullStream_def)
  show ?thesis
    using none built ts ui full wrap_prefix [of "sdk_fullStream result"]
      wrap_unaborted [of "sdk_fullStream result"]
    by simp
qed

theorem streamText_without_guardrails_bypasses_pipeline_witness:
  "\<not> hasSubAgents sampleStreamEnv \<and>
   map abortedBefore (sdk_fullStream completeResult) = [False, False, False] \<and>
   map abortedAfter (sdk_fullStream completeResult) = [False, False, False] \<and>
   guardrailPipelineOf sampleStreamEnv [] completeResult = None \<and>
   guardrailPipelineOf sampleStreamEnv [()] completeResult \<noteq> None \<and>
   rc_textStream (resultStreams sampleStreamEnv [] completeResult) = ''text-stream'' \<and>
   rc_toUIMessageStream (resultStreams sampleStreamEnv [] completeResult) () = ''ui-stream'' \<and>
   rc_fullStream (resultStreams sampleStreamEnv [] completeResult) = ([''Hel'', ''lo''], None)"
proof -
  have s: "\<not> hasSubAgents sampleStreamEnv"
    by (simp add: sampleStreamEnv_def)
  have a: "\<forall>r\<in>set (sdk_fullStream completeResult). \<not> abortedBefore r \<and> \<not> abortedAfter r"
    by (simp add: completeResult_def)
  have f: "forAwait (sdk_fullStream completeResult) = ([''Hel'', ''lo''], None)"
    by (simp add: completeResult_def)
  have v: "sdk_textStream completeResult = ''text-stream''"
    "sdk_toUIMessageStream completeResult () = ''ui-stream''"
    by (simp_all add: completeResult_def)
  have n: "[()] \<noteq> []"
    by simp
  have m: "map abortedBefore (sdk_fullStream completeResult) = [False, False, False]"
    "map abortedAfter (sdk_fullStream completeResult) = [False, False, False]"
    by (simp_all add: completeResult_def)
  note t = streamText_without_guardrails_bypasses_pipeline
      [of sampleStreamEnv completeResult "[()]" "()"]
  have "guardrailPipelineOf sampleStreamEnv [] completeResult = None \<and>
   guardrailPipelineOf sampleStreamEnv [()] completeResult \<noteq> None \<and>
   rc_textStream (resultStreams sampleStreamEnv [] completeResult) = ''text-stream'' \<and>
   rc_toUIMessageStream (resultStreams sampleStreamEnv [] completeResult) () = ''ui-stream'' \<and>
   rc_fullStream (resultStreams sampleStreamEnv [] completeResult) = ([''Hel'', ''lo''], None)"
    using t s a f v n by metis
  then show ?thesis
    using s m by simp
qed

text \<open>
  Claim C6, as stated, fails for the full stream: with no guardrail configured the
  caller still gets the model's full stream behind \<^verbatim>\<open>wrapWithAbortHandling\<close>, not the
  stream itself. When a read of the model's stream fails after the operation has been
  aborted, the model's stream ends with that error, the stream handed to the caller ends
  as if complete.
\<close>

theorem streamText_raw_full_stream_counterexample:
  "\<not> hasSubAgents sampleStreamEnv \<and>
   guardrailPipelineOf sampleStreamEnv [] abortedResult = None \<and>
   forAwait (sdk_fullStream abortedResult) = ([''Hel''], Some (Failure ''AbortError'')) \<and>
   rc_fullStream (resultStreams sampleStreamEnv [] abortedResult) = ([''Hel''], None)"
  by (simp add: sampleStreamEnv_def abortedResult_def resultStreams_def guardrailPipelineOf_def
      guardrailStreamingEnabled_def getGuardrailAwareFullStream_def createBaseFullStream_def)

subsection \<open>Sub-agent bail\<close>









text \<open>
  Apart from the claim: for a sub-agent that bailed with an empty response, the \<^verbatim>\<open>text\<close>
  of the object \<^verbatim>\<open>streamText\<close> returns resolves to the text of the model SDK, since it is
  \<^verbatim>\<open>bailedResult?.response || aiSdkText\<close>, while \<^verbatim>\<open>onFinish\<close> makes the empty response the
  output of the operation.
\<close>

lemma sanitizedTextPromise_empty_response:
  "sc_bailedResult (oc_systemContext (bailedContext [])) = Some (JStr ''writer'', []) \<and>
   sanitizedTextPromise noPipeline (oc_systemContext (bailedContext [])) ''partial'' = ''partial'' \<and>
   map_sum id (\<lambda>f. (oc_output (fin_oc f), fin_traceFinishReason f))
       (onFinish [] noPipeline silentHooks (bailedContext []) abortedFinalResult ''partial'') =
     Inr (Some [], ''stop'')"
  by code_simp

end
